theory Spec2Isabelle
  imports Complex_Main
begin

section \<open>Commercial solar asset manager: the financial scenario engine\<close>

text \<open>
  A shallow embedding of \<^verbatim>\<open>src/code.py\<close>. Python floats are modelled by the real
  numbers they denote: rounding, infinities, NaN and range errors of float arithmetic are
  not part of the model. The one arithmetic exception that exact arithmetic has,
  \<^verbatim>\<open>ZeroDivisionError\<close>, is a value of the model, and so is the
  \<^verbatim>\<open>OverflowError\<close> of converting an unbounded Python int to a float.
\<close>

datatype error = ZeroDivisionError | OverflowError | ValueError

subsection \<open>Python arithmetic that can raise\<close>

definition py_div :: "real \<Rightarrow> real \<Rightarrow> error + real" where
  "py_div a b = (if b = 0 then Inl ZeroDivisionError else Inr (a / b))"

text \<open>A list comprehension evaluates its elements in order and stops at the first raise.\<close>

fun collect :: "(error + 'a) list \<Rightarrow> error + 'a list" where
  "collect [] = Inr []"
| "collect (x # xs) =
     (case x of
        Inl e \<Rightarrow> Inl e
      | Inr v \<Rightarrow> (case collect xs of Inl e \<Rightarrow> Inl e | Inr vs \<Rightarrow> Inr (v # vs)))"

text \<open>\<^verbatim>\<open>sum([cf / ((1+rate)**i) for i, cf in enumerate(cashflows)])\<close>\<close>

definition npv_sum :: "real list \<Rightarrow> real \<Rightarrow> error + real" where
  "npv_sum cashflows rate =
     (case collect (map (\<lambda>(i, cf). py_div cf ((1 + rate) ^ i)) (enumerate 0 cashflows)) of
        Inl e \<Rightarrow> Inl e
      | Inr vs \<Rightarrow> Inr (sum_list vs))"

text \<open>\<^verbatim>\<open>sum([-i * cf / ((1+rate)**(i+1)) for i, cf in enumerate(cashflows)])\<close>\<close>

definition derivative_sum :: "real list \<Rightarrow> real \<Rightarrow> error + real" where
  "derivative_sum cashflows rate =
     (case collect (map (\<lambda>(i, cf). py_div (- real i * cf) ((1 + rate) ^ (i + 1)))
                        (enumerate 0 cashflows)) of
        Inl e \<Rightarrow> Inl e
      | Inr vs \<Rightarrow> Inr (sum_list vs))"

subsection \<open>\<^verbatim>\<open>calculate_irr\<close>\<close>

text \<open>
  The body of \<^verbatim>\<open>for _ in range(100)\<close>, with the number of remaining rounds as the
  first argument. Every exception inside the \<^verbatim>\<open>try\<close> returns \<^verbatim>\<open>None\<close>.
\<close>

fun irr_loop :: "nat \<Rightarrow> real list \<Rightarrow> real \<Rightarrow> real option" where
  "irr_loop 0 cashflows rate = None"
| "irr_loop (Suc n) cashflows rate =
     (case npv_sum cashflows rate of
        Inl e \<Rightarrow> None
      | Inr npv \<Rightarrow>
          (case derivative_sum cashflows rate of
             Inl e \<Rightarrow> None
           | Inr derivative \<Rightarrow>
               if \<bar>derivative\<bar> < 1 / 10 ^ 10 then None
               else (case py_div npv derivative of
                       Inl e \<Rightarrow> None
                     | Inr q \<Rightarrow>
                         let new_rate = rate - q
                         in if \<bar>new_rate - rate\<bar> < 1 / 10 ^ 7 then Some new_rate
                            else irr_loop n cashflows new_rate)))"

definition calculate_irr :: "real list \<Rightarrow> real \<Rightarrow> real option" where
  "calculate_irr cashflows guess = irr_loop 100 cashflows guess"

subsection \<open>\<^verbatim>\<open>get_coordinates\<close> and \<^verbatim>\<open>get_pvgis_data\<close>\<close>

text \<open>
  The geocoder is an external service: a call raises, returns nothing, or returns a location.
\<close>

datatype geo_outcome = GeoRaises | GeoNone | GeoLocation real real

definition get_coordinates :: "(string \<Rightarrow> geo_outcome) \<Rightarrow> string \<Rightarrow> real option \<times> real option" where
  "get_coordinates geocode address =
     (case geocode address of
        GeoLocation la lo \<Rightarrow> (Some la, Some lo)
      | GeoNone \<Rightarrow> (None, None)
      | GeoRaises \<Rightarrow> (None, None))"

text \<open>
  The yield service is given as a function of the request; \<open>None\<close> stands for a request or a
  parse that raised (caught by the bare \<^verbatim>\<open>except\<close>).
\<close>

type_synonym pvgis_service = "real \<Rightarrow> real \<Rightarrow> real \<Rightarrow> int \<Rightarrow> int \<Rightarrow> real option"

definition get_pvgis_data :: "pvgis_service \<Rightarrow> real \<Rightarrow> real \<Rightarrow> real \<Rightarrow> int \<Rightarrow> int \<Rightarrow> real option" where
  "get_pvgis_data pvgis lat lon kwp angle aspect =
     (if kwp \<le> 0 then Some 0 else pvgis lat lon kwp angle aspect)"

subsection \<open>\<^verbatim>\<open>parse_de_number\<close>\<close>

datatype py_value = PyInt int | PyFloat real | PyStr string | PyNone | PyList "py_value list"

text \<open>
  \<^verbatim>\<open>float(n)\<close> of a Python int raises \<^verbatim>\<open>OverflowError\<close> when \<open>n\<close> rounds to a
  magnitude of \<open>2^1024\<close> or more.
\<close>

definition float_of_int :: "int \<Rightarrow> error + real" where
  "float_of_int n = (if \<bar>n\<bar> < 2 ^ 1024 - 2 ^ 970 then Inr (of_int n) else Inl OverflowError)"

text \<open>\<^verbatim>\<open>value.replace(",", ".")\<close>\<close>

definition replace_comma :: "string \<Rightarrow> string" where
  "replace_comma s = map (\<lambda>c. if c = CHR '','' then CHR ''.'' else c) s"

text \<open>
  The built-in \<^verbatim>\<open>float(str)\<close> is a parameter: it returns the number or raises
  \<^verbatim>\<open>ValueError\<close>.
\<close>

definition parse_de_number :: "(string \<Rightarrow> error + real) \<Rightarrow> py_value \<Rightarrow> error + real option" where
  "parse_de_number float_of_str v =
     (case v of
        PyInt n \<Rightarrow> (case float_of_int n of Inl e \<Rightarrow> Inl e | Inr x \<Rightarrow> Inr (Some x))
      | PyFloat x \<Rightarrow> Inr (Some x)
      | PyStr s \<Rightarrow> (case float_of_str (replace_comma s) of
                      Inl e \<Rightarrow> Inr None
                    | Inr x \<Rightarrow> Inr (Some x))
      | PyNone \<Rightarrow> Inr None
      | PyList vs \<Rightarrow> Inr None)"

subsection \<open>Inputs of the page and the values derived from them\<close>

datatype capex_method = PerKwp | Total

record inputs =
  addr :: string
  angle :: int
  aspect :: int
  area :: real
  invest_type :: capex_method
  price_kwp :: real
  total_invest :: real
  opex_percent :: real
  self_use_percent :: int
  p_industry_ct :: real
  p_market_ct :: real
  wacc_percent :: real
  degr_avg_percent :: real
  degr_worst_percent :: real
  infl_avg_percent :: real
  merit_drop_percent :: real
  inv_cost_in :: real
  inv_year_in :: nat

text \<open>The values the calculation reads, as the script derives them from the widgets.\<close>

record params =
  capex :: real
  opex_fix :: real
  self_use :: real
  p_industry :: real
  p_market :: real
  wacc :: real
  degr_avg :: real
  degr_worst :: real
  infl_avg :: real
  merit_drop :: real
  inv_cost :: real
  inv_year :: nat

definition kwp :: "inputs \<Rightarrow> real" where
  "kwp i = area i / 6"

definition derive :: "inputs \<Rightarrow> params" where
  "derive i =
     (let cap = (case invest_type i of PerKwp \<Rightarrow> kwp i * price_kwp i | Total \<Rightarrow> total_invest i)
      in \<lparr> capex = cap,
           opex_fix = cap * (opex_percent i / 100),
           self_use = real_of_int (self_use_percent i) / 100,
           p_industry = p_industry_ct i / 100,
           p_market = p_market_ct i / 100,
           wacc = wacc_percent i / 100,
           degr_avg = degr_avg_percent i / 100,
           degr_worst = degr_worst_percent i / 100,
           infl_avg = infl_avg_percent i / 100,
           merit_drop = merit_drop_percent i / 100,
           inv_cost = inv_cost_in i,
           inv_year = inv_year_in i \<rparr>)"

text \<open>
  \<^verbatim>\<open>lat, lon = 53.55, 9.99\<close>, overwritten when the address is non-empty and the looked-up
  latitude is truthy (neither \<^verbatim>\<open>None\<close> nor \<open>0.0\<close>).
\<close>

definition default_location :: "real \<times> real" where
  "default_location = (5355 / 100, 999 / 100)"

definition resolve_location :: "(string \<Rightarrow> geo_outcome) \<Rightarrow> string \<Rightarrow> real \<times> real" where
  "resolve_location geocode a =
     (if a \<noteq> [] then
        (case get_coordinates geocode a of
           (Some f_lat, Some f_lon) \<Rightarrow> if f_lat \<noteq> 0 then (f_lat, f_lon) else default_location
         | _ \<Rightarrow> default_location)
      else default_location)"

subsection \<open>The twenty-year projection\<close>

text \<open>The local variables of the loop body, as functions of the year \<open>y\<close>.\<close>

definition prod_a :: "params \<Rightarrow> real \<Rightarrow> nat \<Rightarrow> real" where
  "prod_a P start_yield y = start_yield * ((1 - degr_avg P) ^ (y - 1))"

definition p_ind_a :: "params \<Rightarrow> nat \<Rightarrow> real" where
  "p_ind_a P y = p_industry P * ((1 + infl_avg P) ^ (y - 1))"

definition p_mark_a :: "params \<Rightarrow> nat \<Rightarrow> real" where
  "p_mark_a P y = p_market P * ((1 + infl_avg P) ^ (y - 1))"

definition rev_a :: "params \<Rightarrow> real \<Rightarrow> nat \<Rightarrow> real" where
  "rev_a P start_yield y =
     (prod_a P start_yield y * self_use P * p_ind_a P y)
     + (prod_a P start_yield y * (1 - self_use P) * p_mark_a P y)"

definition cost_a :: "params \<Rightarrow> nat \<Rightarrow> real" where
  "cost_a P y = opex_fix P * ((1 + infl_avg P) ^ (y - 1))"

definition cf_a :: "params \<Rightarrow> real \<Rightarrow> nat \<Rightarrow> real" where
  "cf_a P start_yield y = rev_a P start_yield y - cost_a P y"

definition prod_w :: "params \<Rightarrow> real \<Rightarrow> nat \<Rightarrow> real" where
  "prod_w P start_yield y = start_yield * ((1 - degr_worst P) ^ (y - 1))"

definition p_mark_w :: "params \<Rightarrow> nat \<Rightarrow> real" where
  "p_mark_w P y = p_market P * ((1 - merit_drop P) ^ (y - 1))"

definition rev_w :: "params \<Rightarrow> real \<Rightarrow> nat \<Rightarrow> real" where
  "rev_w P start_yield y =
     (prod_w P start_yield y * self_use P * p_industry P)
     + (prod_w P start_yield y * (1 - self_use P) * p_mark_w P y)"

definition cost_w :: "params \<Rightarrow> nat \<Rightarrow> real" where
  "cost_w P y = opex_fix P * ((1 + infl_avg P) ^ (y - 1))"

definition invest_fix :: "params \<Rightarrow> nat \<Rightarrow> real" where
  "invest_fix P y = (if y = inv_year P then inv_cost P else 0)"

definition cf_w :: "params \<Rightarrow> real \<Rightarrow> nat \<Rightarrow> real" where
  "cf_w P start_yield y = rev_w P start_yield y - cost_w P y - invest_fix P y"

text \<open>The variables the loop updates.\<close>

record loop_state =
  res_avg :: "real list"
  res_worst :: "real list"
  flows_avg :: "real list"
  flows_worst :: "real list"
  cum_avg :: real
  cum_worst :: real

definition init_state :: "params \<Rightarrow> loop_state" where
  "init_state P =
     \<lparr> res_avg = [], res_worst = [],
       flows_avg = [- capex P], flows_worst = [- capex P],
       cum_avg = - capex P, cum_worst = - capex P \<rparr>"

definition year_step :: "params \<Rightarrow> real \<Rightarrow> loop_state \<Rightarrow> nat \<Rightarrow> loop_state" where
  "year_step P start_yield s y =
     (let ca = cum_avg s + cf_a P start_yield y;
          cw = cum_worst s + cf_w P start_yield y
      in \<lparr> res_avg = res_avg s @ [ca],
           res_worst = res_worst s @ [cw],
           flows_avg = flows_avg s @ [cf_a P start_yield y],
           flows_worst = flows_worst s @ [cf_w P start_yield y],
           cum_avg = ca,
           cum_worst = cw \<rparr>)"

text \<open>\<^verbatim>\<open>years = range(1, 21)\<close>\<close>

definition years :: "nat list" where
  "years = [1..<21]"

definition project :: "params \<Rightarrow> real \<Rightarrow> loop_state" where
  "project P start_yield = foldl (year_step P start_yield) (init_state P) years"

subsection \<open>The outputs\<close>

text \<open>
  Both present values are computed in one \<^verbatim>\<open>try\<close>; any exception sets both to 0.
\<close>

definition npv_pair :: "real list \<Rightarrow> real list \<Rightarrow> real \<Rightarrow> real \<times> real" where
  "npv_pair fa fw rate =
     (case npv_sum fa rate of
        Inl e \<Rightarrow> (0, 0)
      | Inr a \<Rightarrow> (case npv_sum fw rate of Inl e \<Rightarrow> (0, 0) | Inr w \<Rightarrow> (a, w)))"

text \<open>
  \<^verbatim>\<open>f"{format_de(irr_avg*100,2)}%" if irr_avg else "n/a"\<close>: \<open>Percent x\<close> stands for the
  formatted number \<open>x\<close> followed by the percent sign, \<open>NA\<close> for the text \<^verbatim>\<open>n/a\<close>. The
  condition is Python truthiness: false for \<^verbatim>\<open>None\<close> and for \<open>0.0\<close>.
\<close>

datatype irr_text = Percent real | NA

definition irr_display :: "real option \<Rightarrow> irr_text" where
  "irr_display irr =
     (case irr of
        None \<Rightarrow> NA
      | Some r \<Rightarrow> if r \<noteq> 0 then Percent (r * 100) else NA)"

text \<open>
  \<^verbatim>\<open>next((i for i, x in enumerate(res) if x >= 0), ">20")\<close>: \<open>Beyond20\<close> is the text
  \<^verbatim>\<open>>20\<close>.
\<close>

datatype payback = Year nat | Beyond20

fun first_nonneg :: "(nat \<times> real) list \<Rightarrow> payback" where
  "first_nonneg [] = Beyond20"
| "first_nonneg ((i, x) # rest) = (if x \<ge> 0 then Year i else first_nonneg rest)"

definition payback_of :: "real list \<Rightarrow> payback" where
  "payback_of res = first_nonneg (enumerate 0 res)"

datatype diagnosis = RiskWarning | StrongBuy | NoFlag

record outputs =
  out_flows_avg :: "real list"
  out_flows_worst :: "real list"
  out_res_avg :: "real list"
  out_res_worst :: "real list"
  npv_avg :: real
  npv_worst :: real
  irr_avg :: "real option"
  irr_shown :: irr_text
  payback_avg :: payback
  payback_worst :: payback
  flag :: diagnosis

definition report :: "params \<Rightarrow> real \<Rightarrow> outputs" where
  "report P start_yield =
     (let s = project P start_yield;
          (na, nw) = npv_pair (flows_avg s) (flows_worst s) (wacc P);
          irr = calculate_irr (flows_avg s) (1 / 10)
      in \<lparr> out_flows_avg = flows_avg s,
           out_flows_worst = flows_worst s,
           out_res_avg = res_avg s,
           out_res_worst = res_worst s,
           npv_avg = na,
           npv_worst = nw,
           irr_avg = irr,
           irr_shown = irr_display irr,
           payback_avg = payback_of (res_avg s),
           payback_worst = payback_of (res_worst s),
           flag = (if na > 0 \<and> nw < 0 then RiskWarning
                   else if nw > 0 then StrongBuy else NoFlag) \<rparr>)"

text \<open>
  The button handler: the yield is looked up unless the capacity is not positive, and the
  whole calculation sits under \<^verbatim>\<open>if start_yield is not None\<close>. \<open>None\<close> is a run that
  shows nothing.
\<close>

definition calculate :: "(string \<Rightarrow> geo_outcome) \<Rightarrow> pvgis_service \<Rightarrow> inputs \<Rightarrow> outputs option" where
  "calculate geocode pvgis i =
     (let (lat, lon) = resolve_location geocode (addr i);
          start_yield = (if kwp i > 0
                         then get_pvgis_data pvgis lat lon (kwp i) (angle i) (aspect i)
                         else Some 0)
      in case start_yield of
           None \<Rightarrow> None
         | Some y0 \<Rightarrow> Some (report (derive i) y0))"

section \<open>The same lines within the range of doubles\<close>

text \<open>
  The definitions above compute in exact arithmetic. Python's floats are doubles: a power
  that leaves their range raises \<^verbatim>\<open>OverflowError\<close>, a power too small for them is 0 (and
  a division by it raises), a sum, product or quotient that leaves the range is an
  infinity, and operations on infinities can give NaN. This section models the lines that
  compute with these effects. A finite float is modelled by the real number it denotes;
  rounding inside the range is still not modelled.
\<close>

datatype fl = Fin real | PInf | NInf | NaN

text \<open>
  A result of this magnitude or more rounds to an infinity; a power of the magnitude
  \<open>float_tiny\<close> or less rounds to 0.
\<close>

definition float_overflow :: real where
  "float_overflow = 2 ^ 1024 - 2 ^ 970"

definition float_tiny :: real where
  "float_tiny = 1 / 2 ^ 1075"

definition clip :: "real \<Rightarrow> fl" where
  "clip r = (if float_overflow \<le> r then PInf else if r \<le> - float_overflow then NInf else Fin r)"

fun fneg :: "fl \<Rightarrow> fl" where
  "fneg (Fin a) = Fin (- a)"
| "fneg PInf = NInf"
| "fneg NInf = PInf"
| "fneg NaN = NaN"

fun fabs :: "fl \<Rightarrow> fl" where
  "fabs (Fin a) = Fin \<bar>a\<bar>"
| "fabs PInf = PInf"
| "fabs NInf = PInf"
| "fabs NaN = NaN"

fun fadd :: "fl \<Rightarrow> fl \<Rightarrow> fl" where
  "fadd (Fin a) (Fin b) = clip (a + b)"
| "fadd NaN y = NaN"
| "fadd x NaN = NaN"
| "fadd PInf NInf = NaN"
| "fadd NInf PInf = NaN"
| "fadd PInf y = PInf"
| "fadd NInf y = NInf"
| "fadd (Fin a) PInf = PInf"
| "fadd (Fin a) NInf = NInf"

definition fsub :: "fl \<Rightarrow> fl \<Rightarrow> fl" where
  "fsub x y = fadd x (fneg y)"

text \<open>An infinity times a finite number: NaN for 0, else the infinity with the product's sign.\<close>

definition scale_inf :: "fl \<Rightarrow> real \<Rightarrow> fl" where
  "scale_inf i a = (if a = 0 then NaN else if 0 < a then i else fneg i)"

fun fmul :: "fl \<Rightarrow> fl \<Rightarrow> fl" where
  "fmul (Fin a) (Fin b) = clip (a * b)"
| "fmul NaN y = NaN"
| "fmul x NaN = NaN"
| "fmul (Fin a) y = scale_inf y a"
| "fmul x (Fin b) = scale_inf x b"
| "fmul PInf y = y"
| "fmul NInf y = fneg y"

text \<open>\<^verbatim>\<open>x / y\<close>: a zero divisor raises whatever the dividend is.\<close>

fun fdiv :: "fl \<Rightarrow> fl \<Rightarrow> error + fl" where
  "fdiv x (Fin b) =
     (if b = 0 then Inl ZeroDivisionError
      else (case x of
              Fin a \<Rightarrow> Inr (clip (a / b))
            | NaN \<Rightarrow> Inr NaN
            | PInf \<Rightarrow> Inr (scale_inf PInf b)
            | NInf \<Rightarrow> Inr (scale_inf NInf b)))"
| "fdiv x NaN = Inr NaN"
| "fdiv (Fin a) y = Inr (Fin 0)"
| "fdiv x y = Inr NaN"

text \<open>
  \<^verbatim>\<open>x ** n\<close> for a float \<open>x\<close> and an int \<open>n \<ge> 0\<close>: 1 for \<open>n = 0\<close> whatever \<open>x\<close> is;
  \<^verbatim>\<open>OverflowError\<close> when the power of a finite \<open>x\<close> leaves the range.
\<close>

fun fpow :: "fl \<Rightarrow> nat \<Rightarrow> error + fl" where
  "fpow x 0 = Inr (Fin 1)"
| "fpow (Fin a) n =
     (if float_overflow \<le> \<bar>a ^ n\<bar> then Inl OverflowError
      else if \<bar>a ^ n\<bar> \<le> float_tiny then Inr (Fin 0)
      else Inr (Fin (a ^ n)))"
| "fpow PInf n = Inr PInf"
| "fpow NInf n = Inr (if even n then PInf else NInf)"
| "fpow NaN n = Inr NaN"

text \<open>\<^verbatim>\<open>x < y\<close>: false as soon as one side is NaN.\<close>

fun flt :: "fl \<Rightarrow> fl \<Rightarrow> bool" where
  "flt (Fin a) (Fin b) = (a < b)"
| "flt NaN y = False"
| "flt x NaN = False"
| "flt x NInf = False"
| "flt PInf y = False"
| "flt x PInf = True"
| "flt NInf y = True"

text \<open>\<^verbatim>\<open>sum(xs)\<close> adds from the left, starting at 0.\<close>

definition fsum :: "fl list \<Rightarrow> fl" where
  "fsum xs = foldl fadd (Fin 0) xs"

subsection \<open>The two sums and \<^verbatim>\<open>calculate_irr\<close>\<close>

definition npv_sum_fl :: "fl list \<Rightarrow> fl \<Rightarrow> error + fl" where
  "npv_sum_fl cashflows rate =
     (case collect (map (\<lambda>(i, cf). case fpow (fadd (Fin 1) rate) i of
                                       Inl e \<Rightarrow> Inl e
                                     | Inr p \<Rightarrow> fdiv cf p)
                        (enumerate 0 cashflows)) of
        Inl e \<Rightarrow> Inl e
      | Inr vs \<Rightarrow> Inr (fsum vs))"

definition derivative_sum_fl :: "fl list \<Rightarrow> fl \<Rightarrow> error + fl" where
  "derivative_sum_fl cashflows rate =
     (case collect (map (\<lambda>(i, cf). case fpow (fadd (Fin 1) rate) (i + 1) of
                                       Inl e \<Rightarrow> Inl e
                                     | Inr p \<Rightarrow> fdiv (fmul (Fin (- real i)) cf) p)
                        (enumerate 0 cashflows)) of
        Inl e \<Rightarrow> Inl e
      | Inr vs \<Rightarrow> Inr (fsum vs))"

fun irr_loop_fl :: "nat \<Rightarrow> fl list \<Rightarrow> fl \<Rightarrow> fl option" where
  "irr_loop_fl 0 cashflows rate = None"
| "irr_loop_fl (Suc n) cashflows rate =
     (case npv_sum_fl cashflows rate of
        Inl e \<Rightarrow> None
      | Inr npv \<Rightarrow>
          (case derivative_sum_fl cashflows rate of
             Inl e \<Rightarrow> None
           | Inr derivative \<Rightarrow>
               if flt (fabs derivative) (Fin (1 / 10 ^ 10)) then None
               else (case fdiv npv derivative of
                       Inl e \<Rightarrow> None
                     | Inr q \<Rightarrow>
                         let new_rate = fsub rate q
                         in if flt (fabs (fsub new_rate rate)) (Fin (1 / 10 ^ 7))
                            then Some new_rate
                            else irr_loop_fl n cashflows new_rate)))"

definition calculate_irr_fl :: "fl list \<Rightarrow> fl \<Rightarrow> fl option" where
  "calculate_irr_fl cashflows guess = irr_loop_fl 100 cashflows guess"

subsection \<open>The two present values of the report\<close>

definition npv_pair_fl :: "fl list \<Rightarrow> fl list \<Rightarrow> fl \<Rightarrow> fl \<times> fl" where
  "npv_pair_fl fa fw rate =
     (case npv_sum_fl fa rate of
        Inl e \<Rightarrow> (Fin 0, Fin 0)
      | Inr a \<Rightarrow> (case npv_sum_fl fw rate of Inl e \<Rightarrow> (Fin 0, Fin 0) | Inr w \<Rightarrow> (a, w)))"

subsection \<open>The twenty-year projection\<close>

text \<open>
  The loop is outside any \<^verbatim>\<open>try\<close>: a power that raises ends the run. The parameters are
  the finite numbers of the page; the first-year yield is what the service returned.
\<close>

definition rev_a_fl :: "params \<Rightarrow> fl \<Rightarrow> nat \<Rightarrow> error + fl" where
  "rev_a_fl P start_yield y =
     (case fpow (fsub (Fin 1) (Fin (degr_avg P))) (y - 1) of
        Inl e \<Rightarrow> Inl e
      | Inr d \<Rightarrow>
     (case fpow (fadd (Fin 1) (Fin (infl_avg P))) (y - 1) of
        Inl e \<Rightarrow> Inl e
      | Inr i1 \<Rightarrow>
     (case fpow (fadd (Fin 1) (Fin (infl_avg P))) (y - 1) of
        Inl e \<Rightarrow> Inl e
      | Inr i2 \<Rightarrow>
          let prod_a = fmul start_yield d;
              p_ind_a = fmul (Fin (p_industry P)) i1;
              p_mark_a = fmul (Fin (p_market P)) i2
          in Inr (fadd (fmul (fmul prod_a (Fin (self_use P))) p_ind_a)
                       (fmul (fmul prod_a (fsub (Fin 1) (Fin (self_use P)))) p_mark_a)))))"

definition cost_a_fl :: "params \<Rightarrow> nat \<Rightarrow> error + fl" where
  "cost_a_fl P y =
     (case fpow (fadd (Fin 1) (Fin (infl_avg P))) (y - 1) of
        Inl e \<Rightarrow> Inl e
      | Inr i \<Rightarrow> Inr (fmul (Fin (opex_fix P)) i))"

definition cf_a_fl :: "params \<Rightarrow> fl \<Rightarrow> nat \<Rightarrow> error + fl" where
  "cf_a_fl P start_yield y =
     (case rev_a_fl P start_yield y of
        Inl e \<Rightarrow> Inl e
      | Inr r \<Rightarrow> (case cost_a_fl P y of Inl e \<Rightarrow> Inl e | Inr c \<Rightarrow> Inr (fsub r c)))"

definition rev_w_fl :: "params \<Rightarrow> fl \<Rightarrow> nat \<Rightarrow> error + fl" where
  "rev_w_fl P start_yield y =
     (case fpow (fsub (Fin 1) (Fin (degr_worst P))) (y - 1) of
        Inl e \<Rightarrow> Inl e
      | Inr d \<Rightarrow>
     (case fpow (fsub (Fin 1) (Fin (merit_drop P))) (y - 1) of
        Inl e \<Rightarrow> Inl e
      | Inr m \<Rightarrow>
          let prod_w = fmul start_yield d;
              p_mark_w = fmul (Fin (p_market P)) m
          in Inr (fadd (fmul (fmul prod_w (Fin (self_use P))) (Fin (p_industry P)))
                       (fmul (fmul prod_w (fsub (Fin 1) (Fin (self_use P)))) p_mark_w))))"

definition cost_w_fl :: "params \<Rightarrow> nat \<Rightarrow> error + fl" where
  "cost_w_fl P y =
     (case fpow (fadd (Fin 1) (Fin (infl_avg P))) (y - 1) of
        Inl e \<Rightarrow> Inl e
      | Inr i \<Rightarrow> Inr (fmul (Fin (opex_fix P)) i))"

definition cf_w_fl :: "params \<Rightarrow> fl \<Rightarrow> nat \<Rightarrow> error + fl" where
  "cf_w_fl P start_yield y =
     (case rev_w_fl P start_yield y of
        Inl e \<Rightarrow> Inl e
      | Inr r \<Rightarrow>
          (case cost_w_fl P y of
             Inl e \<Rightarrow> Inl e
           | Inr c \<Rightarrow> Inr (fsub (fsub r c) (Fin (invest_fix P y)))))"

record fl_state =
  fres_avg :: "fl list"
  fres_worst :: "fl list"
  fflows_avg :: "fl list"
  fflows_worst :: "fl list"
  fcum_avg :: fl
  fcum_worst :: fl

definition init_state_fl :: "params \<Rightarrow> fl_state" where
  "init_state_fl P =
     \<lparr> fres_avg = [], fres_worst = [],
       fflows_avg = [Fin (- capex P)], fflows_worst = [Fin (- capex P)],
       fcum_avg = Fin (- capex P), fcum_worst = Fin (- capex P) \<rparr>"

definition year_step_fl :: "params \<Rightarrow> fl \<Rightarrow> fl_state \<Rightarrow> nat \<Rightarrow> error + fl_state" where
  "year_step_fl P start_yield s y =
     (case cf_a_fl P start_yield y of
        Inl e \<Rightarrow> Inl e
      | Inr ca \<Rightarrow>
          (case cf_w_fl P start_yield y of
             Inl e \<Rightarrow> Inl e
           | Inr cw \<Rightarrow>
               Inr \<lparr> fres_avg = fres_avg s @ [fadd (fcum_avg s) ca],
                     fres_worst = fres_worst s @ [fadd (fcum_worst s) cw],
                     fflows_avg = fflows_avg s @ [ca],
                     fflows_worst = fflows_worst s @ [cw],
                     fcum_avg = fadd (fcum_avg s) ca,
                     fcum_worst = fadd (fcum_worst s) cw \<rparr>))"

fun run_years :: "params \<Rightarrow> fl \<Rightarrow> fl_state \<Rightarrow> nat list \<Rightarrow> error + fl_state" where
  "run_years P start_yield s [] = Inr s"
| "run_years P start_yield s (y # ys) =
     (case year_step_fl P start_yield s y of
        Inl e \<Rightarrow> Inl e
      | Inr s' \<Rightarrow> run_years P start_yield s' ys)"

definition project_fl :: "params \<Rightarrow> fl \<Rightarrow> error + fl_state" where
  "project_fl P start_yield = run_years P start_yield (init_state_fl P) years"

section \<open>Reference definitions\<close>

text \<open>
  These follow the wording of the specification, not the script; the lemmas below relate
  them to the script's own computations.

  The cumulative-balance sequence of a cash-flow series: its running sum, of the same
  length, so that index 0 is the outlay entry.
\<close>

fun running_from :: "real \<Rightarrow> real list \<Rightarrow> real list" where
  "running_from acc [] = []"
| "running_from acc (x # xs) = (acc + x) # running_from (acc + x) xs"

definition cumulative_balance :: "real list \<Rightarrow> real list" where
  "cumulative_balance series = running_from 0 series"

text \<open>
  Present value and its derivative in the rate as plain sums, the Newton update built from
  them, and the two tests the solver makes on an iterate.
\<close>

definition npv :: "real list \<Rightarrow> real \<Rightarrow> real" where
  "npv series rate = (\<Sum>i<length series. series ! i / (1 + rate) ^ i)"

definition npv_derivative :: "real list \<Rightarrow> real \<Rightarrow> real" where
  "npv_derivative series rate = (\<Sum>i<length series. - real i * series ! i / (1 + rate) ^ (i + 1))"

definition newton_next :: "real list \<Rightarrow> real \<Rightarrow> real" where
  "newton_next series rate = rate - npv series rate / npv_derivative series rate"


definition step_fails :: "real list \<Rightarrow> real \<Rightarrow> bool" where
  "step_fails series rate \<longleftrightarrow>
     (series \<noteq> [] \<and> 1 + rate = 0) \<or> \<bar>npv_derivative series rate\<bar> < 1 / 10 ^ 10"

definition step_converges :: "real list \<Rightarrow> real \<Rightarrow> bool" where
  "step_converges series rate \<longleftrightarrow> \<bar>newton_next series rate - rate\<bar> < 1 / 10 ^ 7"

section \<open>Concrete runs\<close>

text \<open>
  A run with a flat yearly net flow of 500 on an outlay of 1250: total investment 1250, no
  operating cost, full self-consumption at 50 ct/kWh, a first-year yield of 1000 kWh, no
  degradation and no inflation.
\<close>

definition flat_inputs :: inputs where
  "flat_inputs =
     \<lparr> addr = ''Hamburg'', angle = 35, aspect = 0, area = 6,
       invest_type = Total, price_kwp = 1100, total_invest = 1250,
       opex_percent = 0, self_use_percent = 100, p_industry_ct = 50, p_market_ct = 8,
       wacc_percent = 6, degr_avg_percent = 0, degr_worst_percent = 0,
       infl_avg_percent = 0, merit_drop_percent = 0, inv_cost_in = 0, inv_year_in = 10 \<rparr>"

definition no_geocode :: "string \<Rightarrow> geo_outcome" where
  "no_geocode a = GeoNone"

definition pvgis_1000 :: pvgis_service where
  "pvgis_1000 lat lon k an asp = Some 1000"

text \<open>
  Services that fail, a geocoder that answers with the default position, a run with the
  default rates of the page (1 % operating cost, 2 % inflation, a replacement of 2000 in
  year 10), and the flat run at a cost of capital of -100 %.
\<close>

definition pvgis_down :: pvgis_service where
  "pvgis_down lat lon k an asp = None"

definition geocode_raises :: "string \<Rightarrow> geo_outcome" where
  "geocode_raises a = GeoRaises"

definition geocode_default :: "string \<Rightarrow> geo_outcome" where
  "geocode_default a = GeoLocation (5355 / 100) (999 / 100)"

definition inflated_inputs :: inputs where
  "inflated_inputs =
     \<lparr> addr = ''Hamburg'', angle = 35, aspect = 0, area = 500,
       invest_type = Total, price_kwp = 1100, total_invest = 10000,
       opex_percent = 1, self_use_percent = 40, p_industry_ct = 28, p_market_ct = 8,
       wacc_percent = 6, degr_avg_percent = 1 / 2, degr_worst_percent = 1,
       infl_avg_percent = 2, merit_drop_percent = 1, inv_cost_in = 2000, inv_year_in = 10 \<rparr>"


text \<open>The flat run with no area, hence no capacity.\<close>

definition zero_area_inputs :: inputs where
  "zero_area_inputs = flat_inputs \<lparr> area := 0 \<rparr>"

section \<open>Reference definitions within the range of doubles\<close>

text \<open>
  A power fails when it raises or is 0, so that the division by it raises. A step of the
  solver raises when one of the powers \<open>(1 + rate)^k\<close>, \<open>1 \<le> k \<le> len(cashflows)\<close>, fails.
  The values of the two sums, the Newton update and the iterates are taken in the
  arithmetic of the previous section; where a sum raises, its value is NaN.
\<close>

definition power_fails :: "fl \<Rightarrow> nat \<Rightarrow> bool" where
  "power_fails b k = (case fpow b k of Inl e \<Rightarrow> True | Inr p \<Rightarrow> p = Fin 0)"

definition step_raises :: "fl list \<Rightarrow> fl \<Rightarrow> bool" where
  "step_raises cfs rate = list_ex (power_fails (fadd (Fin 1) rate)) [1..<Suc (length cfs)]"

definition npv_fl :: "fl list \<Rightarrow> fl \<Rightarrow> fl" where
  "npv_fl cfs rate = (case npv_sum_fl cfs rate of Inl e \<Rightarrow> NaN | Inr v \<Rightarrow> v)"

definition derivative_fl :: "fl list \<Rightarrow> fl \<Rightarrow> fl" where
  "derivative_fl cfs rate = (case derivative_sum_fl cfs rate of Inl e \<Rightarrow> NaN | Inr v \<Rightarrow> v)"

definition newton_next_fl :: "fl list \<Rightarrow> fl \<Rightarrow> fl" where
  "newton_next_fl cfs rate =
     (case fdiv (npv_fl cfs rate) (derivative_fl cfs rate) of
        Inl e \<Rightarrow> NaN
      | Inr q \<Rightarrow> fsub rate q)"

fun newton_iter_fl :: "fl list \<Rightarrow> fl \<Rightarrow> nat \<Rightarrow> fl" where
  "newton_iter_fl cfs guess 0 = guess"
| "newton_iter_fl cfs guess (Suc k) = newton_next_fl cfs (newton_iter_fl cfs guess k)"

definition step_flat :: "fl list \<Rightarrow> fl \<Rightarrow> bool" where
  "step_flat cfs rate = flt (fabs (derivative_fl cfs rate)) (Fin (1 / 10 ^ 10))"

definition step_converges_fl :: "fl list \<Rightarrow> fl \<Rightarrow> bool" where
  "step_converges_fl cfs rate = flt (fabs (fsub (newton_next_fl cfs rate) rate)) (Fin (1 / 10 ^ 7))"

text \<open>
  A series of 21 entries on which the twentieth power of \<open>1 + rate\<close> overflows at the
  rate \<open>10^16 - 1\<close>.
\<close>

definition overflow_series :: "fl list" where
  "overflow_series = map Fin ([- (10 ^ 14), 10 ^ 30] @ replicate 19 0)"

text \<open>The cash-flow series of the flat run.\<close>

definition flat_series :: "real list" where
  "flat_series = - 1250 # replicate 20 500"

text \<open>
  The ranges of the projection. A number is in the double range when it is 0 or its
  magnitude lies between the two bounds. The bases of the powers are finite (as they are
  for every float parameter); a power overflows when one of the four powers of some year
  does; and the zero-yield run is in range when the powers, the escalated prices and the
  escalated cost (with and without the replacement) all are.
\<close>

definition in_double_range :: "real \<Rightarrow> bool" where
  "in_double_range r \<longleftrightarrow> r = 0 \<or> (float_tiny < \<bar>r\<bar> \<and> \<bar>r\<bar> < float_overflow)"

definition bases_finite :: "params \<Rightarrow> bool" where
  "bases_finite P \<longleftrightarrow>
     \<bar>1 - degr_avg P\<bar> < float_overflow \<and> \<bar>1 - degr_worst P\<bar> < float_overflow
     \<and> \<bar>1 - merit_drop P\<bar> < float_overflow \<and> \<bar>1 + infl_avg P\<bar> < float_overflow"

definition power_overflows :: "params \<Rightarrow> bool" where
  "power_overflows P \<longleftrightarrow>
     list_ex (\<lambda>k. float_overflow \<le> \<bar>(1 - degr_avg P) ^ k\<bar>
                  \<or> float_overflow \<le> \<bar>(1 - degr_worst P) ^ k\<bar>
                  \<or> float_overflow \<le> \<bar>(1 - merit_drop P) ^ k\<bar>
                  \<or> float_overflow \<le> \<bar>(1 + infl_avg P) ^ k\<bar>) [0..<20]"

definition zero_yield_in_range :: "params \<Rightarrow> bool" where
  "zero_yield_in_range P \<longleftrightarrow>
     \<bar>1 - self_use P\<bar> < float_overflow
     \<and> list_all (\<lambda>k. in_double_range ((1 - degr_avg P) ^ k)
                     \<and> in_double_range ((1 - degr_worst P) ^ k)
                     \<and> in_double_range ((1 - merit_drop P) ^ k)
                     \<and> in_double_range ((1 + infl_avg P) ^ k)
                     \<and> \<bar>p_industry P * (1 + infl_avg P) ^ k\<bar> < float_overflow
                     \<and> \<bar>p_market P * (1 + infl_avg P) ^ k\<bar> < float_overflow
                     \<and> \<bar>p_market P * (1 - merit_drop P) ^ k\<bar> < float_overflow
                     \<and> \<bar>opex_fix P * (1 + infl_avg P) ^ k\<bar> < float_overflow
                     \<and> \<bar>opex_fix P * (1 + infl_avg P) ^ k + inv_cost P\<bar> < float_overflow)
          [0..<20]"

section \<open>Auxiliary facts\<close>

subsection \<open>The projection loop\<close>

lemma running_from_append:
  "running_from acc (xs @ [x]) = running_from acc xs @ [acc + sum_list xs + x]"
  by (induction xs arbitrary: acc) (simp_all add: add.assoc)

lemma foldl_year_step:
  "foldl (year_step P y0) s ys =
     \<lparr> res_avg = res_avg s @ running_from (cum_avg s) (map (cf_a P y0) ys),
       res_worst = res_worst s @ running_from (cum_worst s) (map (cf_w P y0) ys),
       flows_avg = flows_avg s @ map (cf_a P y0) ys,
       flows_worst = flows_worst s @ map (cf_w P y0) ys,
       cum_avg = cum_avg s + sum_list (map (cf_a P y0) ys),
       cum_worst = cum_worst s + sum_list (map (cf_w P y0) ys) \<rparr>"
proof (induction ys rule: rev_induct)
  case Nil
  show ?case by simp
next
  case (snoc y ys)
  have "foldl (year_step P y0) s (ys @ [y]) = year_step P y0 (foldl (year_step P y0) s ys) y"
    by simp
  also have "\<dots> = year_step P y0
     \<lparr> res_avg = res_avg s @ running_from (cum_avg s) (map (cf_a P y0) ys),
       res_worst = res_worst s @ running_from (cum_worst s) (map (cf_w P y0) ys),
       flows_avg = flows_avg s @ map (cf_a P y0) ys,
       flows_worst = flows_worst s @ map (cf_w P y0) ys,
       cum_avg = cum_avg s + sum_list (map (cf_a P y0) ys),
       cum_worst = cum_worst s + sum_list (map (cf_w P y0) ys) \<rparr> y"
    by (simp only: snoc)
  also have "\<dots> =
     \<lparr> res_avg = res_avg s @ running_from (cum_avg s) (map (cf_a P y0) (ys @ [y])),
       res_worst = res_worst s @ running_from (cum_worst s) (map (cf_w P y0) (ys @ [y])),
       flows_avg = flows_avg s @ map (cf_a P y0) (ys @ [y]),
       flows_worst = flows_worst s @ map (cf_w P y0) (ys @ [y]),
       cum_avg = cum_avg s + sum_list (map (cf_a P y0) (ys @ [y])),
       cum_worst = cum_worst s + sum_list (map (cf_w P y0) (ys @ [y])) \<rparr>"
    by (simp add: year_step_def Let_def running_from_append add.assoc)
  finally show ?case .
qed

lemma flows_avg_project: "flows_avg (project P y0) = (- capex P) # map (cf_a P y0) years"
  by (simp add: project_def foldl_year_step init_state_def)

lemma flows_worst_project: "flows_worst (project P y0) = (- capex P) # map (cf_w P y0) years"
  by (simp add: project_def foldl_year_step init_state_def)

lemma res_avg_project: "res_avg (project P y0) = running_from (- capex P) (map (cf_a P y0) years)"
  by (simp add: project_def foldl_year_step init_state_def)

lemma res_worst_project: "res_worst (project P y0) = running_from (- capex P) (map (cf_w P y0) years)"
  by (simp add: project_def foldl_year_step init_state_def)

lemma res_avg_is_tail:
  "res_avg (project P y0) = tl (cumulative_balance (flows_avg (project P y0)))"
  by (simp add: res_avg_project flows_avg_project cumulative_balance_def)

lemma length_years: "length years = 20"
  by (simp add: years_def)

lemma flows_avg_nth: "y \<in> {1..20} \<Longrightarrow> flows_avg (project P y0) ! y = cf_a P y0 y"
  by (cases y) (auto simp: flows_avg_project years_def)

lemma flows_worst_nth: "y \<in> {1..20} \<Longrightarrow> flows_worst (project P y0) ! y = cf_w P y0 y"
  by (cases y) (auto simp: flows_worst_project years_def)

subsection \<open>The two sums and the solver loop\<close>

lemma collect_map_Inr:
  "(\<And>x. x \<in> set xs \<Longrightarrow> f x = Inr (g x)) \<Longrightarrow> collect (map f xs) = Inr (map g xs)"
  by (induction xs) simp_all

lemma sum_list_enumerate:
  "sum_list (map f (enumerate n xs)) = (\<Sum>i<length xs. f (n + i, xs ! i))"
proof (induction xs arbitrary: n)
  case Nil
  show ?case by simp
next
  case (Cons x xs)
  have "sum_list (map f (enumerate n (x # xs))) = f (n, x) + (\<Sum>i<length xs. f (Suc n + i, xs ! i))"
    by (simp add: Cons)
  also have "\<dots> = (\<Sum>i<length (x # xs). f (n + i, (x # xs) ! i))"
    by (simp add: sum.lessThan_Suc_shift del: sum.lessThan_Suc)
  finally show ?case .
qed

lemma npv_sum_ok:
  assumes "1 + rate \<noteq> 0"
  shows "npv_sum cfs rate = Inr (npv cfs rate)"
proof -
  have "collect (map (\<lambda>(i, cf). py_div cf ((1 + rate) ^ i)) (enumerate 0 cfs))
        = Inr (map (\<lambda>(i, cf). cf / (1 + rate) ^ i) (enumerate 0 cfs))"
    using assms by (intro collect_map_Inr) (auto simp: py_div_def)
  then show ?thesis
    by (simp add: npv_sum_def npv_def sum_list_enumerate)
qed

lemma derivative_sum_ok:
  assumes "1 + rate \<noteq> 0"
  shows "derivative_sum cfs rate = Inr (npv_derivative cfs rate)"
proof -
  have "collect (map (\<lambda>(i, cf). py_div (- real i * cf) ((1 + rate) ^ (i + 1))) (enumerate 0 cfs))
        = Inr (map (\<lambda>(i, cf). (- real i * cf) / (1 + rate) ^ (i + 1)) (enumerate 0 cfs))"
    using assms by (intro collect_map_Inr) (auto simp: py_div_def)
  then show ?thesis
    by (simp add: derivative_sum_def npv_derivative_def sum_list_enumerate)
qed

lemma derivative_sum_raises:
  assumes "1 + rate = 0" "cfs \<noteq> []"
  shows "derivative_sum cfs rate = Inl ZeroDivisionError"
proof -
  obtain c cs where cfs: "cfs = c # cs" using assms(2) by (cases cfs) auto
  show ?thesis
    using assms(1) by (simp add: cfs derivative_sum_def py_div_def)
qed


lemma irr_loop_Suc:
  "irr_loop (Suc n) cfs rate =
     (if step_fails cfs rate then None
      else if step_converges cfs rate then Some (newton_next cfs rate)
      else irr_loop n cfs (newton_next cfs rate))"
proof (cases "1 + rate = 0")
  case True
  show ?thesis
  proof (cases "cfs = []")
    case True
    then show ?thesis
      by (simp add: step_fails_def npv_derivative_def npv_sum_def derivative_sum_def)
  next
    case False
    with \<open>1 + rate = 0\<close> show ?thesis
      by (simp add: step_fails_def derivative_sum_raises split: sum.splits)
  qed
next
  case False
  then show ?thesis
    by (auto simp: npv_sum_ok derivative_sum_ok step_fails_def step_converges_def
        newton_next_def py_div_def Let_def)
qed



lemma ex_first_Suc:
  "(\<exists>k<Suc n. (\<forall>j<k. C j) \<and> S k) \<longleftrightarrow> S 0 \<or> (C 0 \<and> (\<exists>k<n. (\<forall>j<k. C (Suc j)) \<and> S (Suc k)))"
  (is "?L \<longleftrightarrow> ?R")
proof
  assume ?L
  then obtain k where k: "k < Suc n" "\<forall>j<k. C j" "S k" by blast
  show ?R
  proof (cases k)
    case 0
    with k show ?thesis by simp
  next
    case (Suc k')
    with k have "C 0" "k' < n" "\<forall>j<k'. C (Suc j)" "S (Suc k')" by auto
    then show ?thesis by blast
  qed
next
  assume ?R
  then show ?L
  proof
    assume "S 0"
    then show ?L by (intro exI[of _ 0]) simp
  next
    assume r: "C 0 \<and> (\<exists>k<n. (\<forall>j<k. C (Suc j)) \<and> S (Suc k))"
    then obtain k where k: "k < n" "\<forall>j<k. C (Suc j)" "S (Suc k)" by blast
    have "\<forall>j<Suc k. C j"
    proof (intro allI impI)
      fix j assume "j < Suc k"
      then show "C j" using r k(2) by (cases j) auto
    qed
    with k show ?L by (intro exI[of _ "Suc k"]) simp
  qed
qed

lemma all_first_Suc:
  "(\<forall>j<Suc n. C j) \<longleftrightarrow> C 0 \<and> (\<forall>j<n. C (Suc j))"
  by (metis less_Suc_eq_0_disj Suc_less_eq zero_less_Suc)




subsection \<open>The report and the flat run\<close>

lemma report_fields:
  "out_flows_avg (report P y0) = flows_avg (project P y0)"
  "out_flows_worst (report P y0) = flows_worst (project P y0)"
  "out_res_avg (report P y0) = res_avg (project P y0)"
  "out_res_worst (report P y0) = res_worst (project P y0)"
  "payback_avg (report P y0) = payback_of (res_avg (project P y0))"
  "payback_worst (report P y0) = payback_of (res_worst (project P y0))"
  "irr_avg (report P y0) = calculate_irr (flows_avg (project P y0)) (1 / 10)"
  "irr_shown (report P y0) = irr_display (calculate_irr (flows_avg (project P y0)) (1 / 10))"
  "npv_avg (report P y0) = fst (npv_pair (flows_avg (project P y0)) (flows_worst (project P y0)) (wacc P))"
  "npv_worst (report P y0) = snd (npv_pair (flows_avg (project P y0)) (flows_worst (project P y0)) (wacc P))"
  by (simp_all add: report_def Let_def split: prod.splits)

lemma calculate_flat: "calculate no_geocode pvgis_1000 flat_inputs = Some (report (derive flat_inputs) 1000)"
  by (simp add: calculate_def resolve_location_def get_coordinates_def no_geocode_def
      default_location_def kwp_def flat_inputs_def get_pvgis_data_def pvgis_1000_def)

lemma cf_a_flat: "cf_a (derive flat_inputs) 1000 y = 500"
  by (simp add: cf_a_def rev_a_def cost_a_def prod_a_def p_ind_a_def p_mark_a_def derive_def flat_inputs_def)

lemma years_list: "years = [1,2,3,4,5,6,7,8,9,10,11,12,13,14,15,16,17,18,19,20]"
  by (simp add: years_def upt_rec)

lemma capex_flat: "capex (derive flat_inputs) = 1250"
  by (simp add: derive_def flat_inputs_def)

subsection \<open>A series with the root at 10 %, and the terms of the present value\<close>


lemma npv_term_antimono:
  assumes "0 \<le> c" "0 \<le> r1" "r1 \<le> (r2::real)"
  shows "c / (1 + r2) ^ i \<le> c / (1 + r1) ^ i"
proof -
  have "(1 + r1) ^ i \<le> (1 + r2) ^ i"
    using assms by (intro power_mono) auto
  moreover have "0 < (1 + r1) ^ i"
    using assms by simp
  ultimately show ?thesis
    using assms(1) by (intro divide_left_mono) (auto intro: mult_pos_pos simp: zero_less_power)
qed

subsection \<open>The present values of the report\<close>

lemma kwp_flat: "kwp flat_inputs = 1"
  by (simp add: kwp_def flat_inputs_def)




subsection \<open>The run with the default rates\<close>

lemma derive_inflated:
  "derive inflated_inputs =
     \<lparr> capex = 10000, opex_fix = 100, self_use = 2 / 5, p_industry = 7 / 25, p_market = 2 / 25,
       wacc = 3 / 50, degr_avg = 1 / 200, degr_worst = 1 / 100, infl_avg = 1 / 50,
       merit_drop = 1 / 100, inv_cost = 2000, inv_year = 10 \<rparr>"
  by (simp add: derive_def inflated_inputs_def)

subsection \<open>The number parser away from the overflow\<close>

lemma parse_de_number_cases:
  "\<bar>n\<bar> < 2 ^ 1024 - 2 ^ 970 \<Longrightarrow> parse_de_number f (PyInt n) = Inr (Some (of_int n))"
  "parse_de_number f (PyFloat x) = Inr (Some x)"
  "f (replace_comma s) = Inr x \<Longrightarrow> parse_de_number f (PyStr s) = Inr (Some x)"
  "f (replace_comma s) = Inl e \<Longrightarrow> parse_de_number f (PyStr s) = Inr None"
  "parse_de_number f PyNone = Inr None"
  "parse_de_number f (PyList vs) = Inr None"
  by (simp_all add: parse_de_number_def float_of_int_def)

lemma replace_comma_example: "replace_comma ''1.234,5'' = ''1.234.5''"
  by (simp add: replace_comma_def)

subsection \<open>The payback lookup\<close>

lemma first_nonneg_shift:
  "first_nonneg (enumerate (Suc n) rs) =
     (case first_nonneg (enumerate n rs) of Year i \<Rightarrow> Year (Suc i) | Beyond20 \<Rightarrow> Beyond20)"
  by (induction rs arbitrary: n) simp_all

lemma payback_one_less:
  assumes "0 < capex P"
  shows "payback_of (cumulative_balance (flows_avg (project P y0))) =
           (case payback_of (res_avg (project P y0)) of
              Year i \<Rightarrow> Year (Suc i)
            | Beyond20 \<Rightarrow> Beyond20)"
  using assms
  by (simp add: payback_of_def cumulative_balance_def flows_avg_project res_avg_project
      first_nonneg_shift[of 0, simplified])

lemma first_nonneg_Year:
  "first_nonneg (enumerate n rs) = Year i \<longleftrightarrow>
     (\<exists>k. i = n + k \<and> k < length rs \<and> 0 \<le> rs ! k \<and> (\<forall>j<k. rs ! j < 0))"
proof (induction rs arbitrary: n)
  case Nil
  show ?case by simp
next
  case (Cons r rs)
  show ?case
  proof (cases "0 \<le> r")
    case True
    have "(\<exists>k. i = n + k \<and> k < length (r # rs) \<and> 0 \<le> (r # rs) ! k \<and> (\<forall>j<k. (r # rs) ! j < 0))
          \<longleftrightarrow> i = n"
    proof
      assume "\<exists>k. i = n + k \<and> k < length (r # rs) \<and> 0 \<le> (r # rs) ! k \<and> (\<forall>j<k. (r # rs) ! j < 0)"
      then obtain k where k: "i = n + k" "\<forall>j<k. (r # rs) ! j < 0" by blast
      have "k = 0"
      proof (rule ccontr)
        assume "k \<noteq> 0"
        with k(2) have "(r # rs) ! 0 < 0" by blast
        with True show False by simp
      qed
      with k(1) show "i = n" by simp
    next
      assume "i = n"
      with True show "\<exists>k. i = n + k \<and> k < length (r # rs) \<and> 0 \<le> (r # rs) ! k \<and> (\<forall>j<k. (r # rs) ! j < 0)"
        by (intro exI[of _ 0]) simp
    qed
    with True show ?thesis by auto
  next
    case False
    have "(\<exists>k. i = n + k \<and> k < length (r # rs) \<and> 0 \<le> (r # rs) ! k \<and> (\<forall>j<k. (r # rs) ! j < 0))
          \<longleftrightarrow> (\<exists>k. i = Suc n + k \<and> k < length rs \<and> 0 \<le> rs ! k \<and> (\<forall>j<k. rs ! j < 0))"
      (is "?L \<longleftrightarrow> ?R")
    proof
      assume ?L
      then obtain k where k: "i = n + k" "k < length (r # rs)" "0 \<le> (r # rs) ! k"
        "\<forall>j<k. (r # rs) ! j < 0" by blast
      with False obtain k' where k': "k = Suc k'" by (cases k) auto
      with k have "i = Suc n + k'" "k' < length rs" "0 \<le> rs ! k'" "\<forall>j<k'. rs ! j < 0"
        by (auto simp: all_first_Suc)
      then show ?R by blast
    next
      assume ?R
      then obtain k where k: "i = Suc n + k" "k < length rs" "0 \<le> rs ! k" "\<forall>j<k. rs ! j < 0"
        by blast
      with False have "i = n + Suc k" "Suc k < length (r # rs)" "0 \<le> (r # rs) ! Suc k"
        "\<forall>j<Suc k. (r # rs) ! j < 0"
        by (auto simp: all_first_Suc)
      then show ?L by blast
    qed
    with False show ?thesis by (simp add: Cons)
  qed
qed

lemma payback_of_Year:
  "payback_of res = Year i \<longleftrightarrow> i < length res \<and> 0 \<le> res ! i \<and> (\<forall>j<i. res ! j < 0)"
  by (simp add: payback_of_def first_nonneg_Year)

section \<open>Auxiliary facts on the range of doubles\<close>

subsection \<open>Operations that stay in range\<close>

lemma float_bounds: "0 < float_tiny" "float_tiny < 1" "1 < float_overflow" "0 < float_overflow"
  by (simp_all add: float_tiny_def float_overflow_def)

lemma clip_Fin: "\<bar>r\<bar> < float_overflow \<Longrightarrow> clip r = Fin r"
  by (auto simp: clip_def)

lemma fpow_Fin:
  assumes "float_tiny < \<bar>a ^ n\<bar>" "\<bar>a ^ n\<bar> < float_overflow"
  shows "fpow (Fin a) n = Inr (Fin (a ^ n))"
  using assms by (cases n) auto

lemma fpow_Fin_overflow:
  assumes "float_overflow \<le> \<bar>a ^ n\<bar>"
  shows "fpow (Fin a) n = Inl OverflowError"
proof (cases n)
  case 0
  with assms float_bounds(3) show ?thesis by simp
next
  case (Suc m)
  with assms show ?thesis by simp
qed

lemma fpow_Fin_zero:
  assumes "0 < n"
  shows "fpow (Fin 0) n = Inr (Fin 0)"
  using assms float_bounds by (cases n) (auto simp: not_le)

lemma collect_Inl_mem: "collect xs = Inl e \<Longrightarrow> Inl e \<in> set xs"
  by (induction xs) (auto split: sum.splits)

lemma collect_raises_iff: "(\<exists>e. collect xs = Inl e) \<longleftrightarrow> (\<exists>x\<in>set xs. isl x)"
  by (induction xs) (auto split: sum.splits)

lemma enumerate_map_Fin:
  "enumerate n (map g xs) = map (\<lambda>(i, x). (i, g x)) (enumerate n xs)"
  by (induction xs arbitrary: n) simp_all

lemma foldl_fadd_Fin:
  "\<bar>acc\<bar> + sum_list (map abs ts) < float_overflow \<Longrightarrow>
     foldl fadd (Fin acc) (map Fin ts) = Fin (acc + sum_list ts)"
proof (induction ts arbitrary: acc)
  case Nil
  show ?case by simp
next
  case (Cons t ts)
  have "0 \<le> sum_list (map abs ts)"
    by (rule sum_list_nonneg) auto
  with Cons.prems have "\<bar>acc + t\<bar> < float_overflow"
    by simp
  then have "fadd (Fin acc) (Fin t) = Fin (acc + t)"
    by (simp add: clip_Fin)
  moreover have "\<bar>acc + t\<bar> + sum_list (map abs ts) < float_overflow"
    using Cons.prems by simp
  ultimately show ?case
    using Cons.IH[of "acc + t"] by (simp add: add.assoc)
qed

lemma fsum_Fin:
  "sum_list (map abs ts) < float_overflow \<Longrightarrow> fsum (map Fin ts) = Fin (sum_list ts)"
  using foldl_fadd_Fin[of 0 ts] by (simp add: fsum_def)

lemma npv_sum_fl_in_range:
  assumes b: "\<bar>1 + rate\<bar> < float_overflow"
    and p: "\<forall>i<length cfs. float_tiny < \<bar>(1 + rate) ^ i\<bar> \<and> \<bar>(1 + rate) ^ i\<bar> < float_overflow"
    and s: "(\<Sum>i<length cfs. \<bar>cfs ! i / (1 + rate) ^ i\<bar>) < float_overflow"
  shows "npv_sum_fl (map Fin cfs) (Fin rate) = Inr (Fin (npv cfs rate))"
proof -
  let ?t = "\<lambda>(i, cf). cf / (1 + rate) ^ i"
  have tm: "\<bar>cfs ! i / (1 + rate) ^ i\<bar> < float_overflow" if "i < length cfs" for i
  proof -
    have "\<bar>cfs ! i / (1 + rate) ^ i\<bar> \<le> (\<Sum>i<length cfs. \<bar>cfs ! i / (1 + rate) ^ i\<bar>)"
      using that by (intro member_le_sum) auto
    with s show ?thesis by linarith
  qed
  have "collect (map (\<lambda>(i, cf). case fpow (fadd (Fin 1) (Fin rate)) i of
                                       Inl e \<Rightarrow> Inl e
                                     | Inr p \<Rightarrow> fdiv cf p)
                  (enumerate 0 (map Fin cfs)))
        = Inr (map (\<lambda>x. Fin (?t x)) (enumerate 0 cfs))"
    unfolding enumerate_map_Fin map_map
  proof (intro collect_map_Inr)
    fix x assume "x \<in> set (enumerate 0 cfs)"
    moreover obtain i c where "x = (i, c)"
      by (cases x)
    ultimately have i: "i < length cfs" "x = (i, cfs ! i)"
      by (auto simp: in_set_enumerate_eq)
    have pw: "fpow (Fin (1 + rate)) i = Inr (Fin ((1 + rate) ^ i))"
      using p i(1) by (intro fpow_Fin) auto
    have "float_tiny < \<bar>(1 + rate) ^ i\<bar>"
      using p i(1) by blast
    with float_bounds(1) have "0 < \<bar>(1 + rate) ^ i\<bar>"
      by linarith
    then have nz: "(1 + rate) ^ i \<noteq> 0"
      by simp
    show "((\<lambda>(i, cf). case fpow (fadd (Fin 1) (Fin rate)) i of
                                       Inl e \<Rightarrow> Inl e
                                     | Inr p \<Rightarrow> fdiv cf p) \<circ> (\<lambda>(i, x). (i, Fin x))) x
          = Inr (Fin (?t x))"
      using tm[OF i(1)] nz by (simp add: i(2) clip_Fin b pw)
  qed
  then have c: "collect (map (\<lambda>(i, cf). case fpow (fadd (Fin 1) (Fin rate)) i of
                                       Inl e \<Rightarrow> Inl e
                                     | Inr p \<Rightarrow> fdiv cf p)
                  (enumerate 0 (map Fin cfs)))
        = Inr (map Fin (map ?t (enumerate 0 cfs)))"
    by (simp add: comp_def)
  have "sum_list (map abs (map ?t (enumerate 0 cfs))) < float_overflow"
    using s by (simp add: comp_def case_prod_unfold sum_list_enumerate[of "\<lambda>x. \<bar>fst x / (1 + rate) ^ snd x\<bar>", simplified] sum_list_enumerate)
  then have "fsum (map Fin (map ?t (enumerate 0 cfs))) = Fin (sum_list (map ?t (enumerate 0 cfs)))"
    by (rule fsum_Fin)
  then show ?thesis
    unfolding npv_sum_fl_def c by (simp add: npv_def sum_list_enumerate)
qed

subsection \<open>Where the solver's sums raise\<close>

lemma fdiv_raises_iff: "(\<exists>e. fdiv x p = Inl e) \<longleftrightarrow> p = Fin 0"
  by (cases p; cases x) auto

lemma fdiv_raises: "fdiv x p = Inl e \<Longrightarrow> e = ZeroDivisionError \<and> p = Fin 0"
  by (cases p; cases x) (auto split: if_splits)

lemma fpow_raises: "fpow b k = Inl e \<Longrightarrow> e = OverflowError"
  by (cases b; cases k) (auto split: if_splits)

lemma power_term_raises_iff:
  "isl (case fpow b k of Inl e \<Rightarrow> Inl e | Inr p \<Rightarrow> fdiv x p) \<longleftrightarrow> power_fails b k"
proof (cases "fpow b k")
  case (Inl e)
  then show ?thesis by (simp add: power_fails_def)
next
  case (Inr p)
  have "isl (fdiv x p) \<longleftrightarrow> p = Fin 0"
    using fdiv_raises_iff[of x p] by (cases "fdiv x p") auto
  with Inr show ?thesis by (simp add: power_fails_def)
qed

lemma ex_enumerate_fst:
  "(\<exists>x\<in>set (enumerate 0 xs). Q (fst x)) \<longleftrightarrow> (\<exists>i<length xs. Q i)"
proof
  assume "\<exists>x\<in>set (enumerate 0 xs). Q (fst x)"
  then obtain x where "x \<in> set (enumerate 0 xs)" "Q (fst x)" by blast
  then have "fst x < length xs" "Q (fst x)" by (simp_all add: in_set_enumerate_eq)
  then show "\<exists>i<length xs. Q i" by blast
next
  assume "\<exists>i<length xs. Q i"
  then obtain i where i: "i < length xs" "Q i" by blast
  then have "(i, xs ! i) \<in> set (enumerate 0 xs)" by (simp add: in_set_enumerate_eq)
  with i(2) show "\<exists>x\<in>set (enumerate 0 xs). Q (fst x)" by force
qed

lemma power_fails_0: "\<not> power_fails b 0"
  by (simp add: power_fails_def)

lemma npv_sum_fl_raises_iff:
  "(\<exists>e. npv_sum_fl cfs rate = Inl e) \<longleftrightarrow> (\<exists>i<length cfs. power_fails (fadd (Fin 1) rate) i)"
proof -
  have "(\<exists>e. npv_sum_fl cfs rate = Inl e) \<longleftrightarrow>
        (\<exists>e. collect (map (\<lambda>(i, cf). case fpow (fadd (Fin 1) rate) i of
                                       Inl e \<Rightarrow> Inl e
                                     | Inr p \<Rightarrow> fdiv cf p)
                        (enumerate 0 cfs)) = Inl e)"
    by (auto simp: npv_sum_fl_def split: sum.splits)
  also have "\<dots> \<longleftrightarrow> (\<exists>x\<in>set (enumerate 0 cfs). power_fails (fadd (Fin 1) rate) (fst x))"
    by (simp add: collect_raises_iff case_prod_unfold power_term_raises_iff)
  also have "\<dots> \<longleftrightarrow> (\<exists>i<length cfs. power_fails (fadd (Fin 1) rate) i)"
    by (rule ex_enumerate_fst)
  finally show ?thesis .
qed

lemma derivative_sum_fl_raises_iff:
  "(\<exists>e. derivative_sum_fl cfs rate = Inl e) \<longleftrightarrow> (\<exists>i<length cfs. power_fails (fadd (Fin 1) rate) (i + 1))"
proof -
  have "(\<exists>e. derivative_sum_fl cfs rate = Inl e) \<longleftrightarrow>
        (\<exists>e. collect (map (\<lambda>(i, cf). case fpow (fadd (Fin 1) rate) (i + 1) of
                                       Inl e \<Rightarrow> Inl e
                                     | Inr p \<Rightarrow> fdiv (fmul (Fin (- real i)) cf) p)
                        (enumerate 0 cfs)) = Inl e)"
    by (auto simp: derivative_sum_fl_def split: sum.splits)
  also have "\<dots> \<longleftrightarrow> (\<exists>x\<in>set (enumerate 0 cfs). power_fails (fadd (Fin 1) rate) (fst x + 1))"
    by (simp add: collect_raises_iff case_prod_unfold power_term_raises_iff)
  also have "\<dots> \<longleftrightarrow> (\<exists>i<length cfs. power_fails (fadd (Fin 1) rate) (i + 1))"
    by (rule ex_enumerate_fst[of _ "\<lambda>i. power_fails (fadd (Fin 1) rate) (i + 1)"])
  finally show ?thesis .
qed

lemma step_raises_iff:
  "step_raises cfs rate \<longleftrightarrow>
     (\<exists>e. npv_sum_fl cfs rate = Inl e) \<or> (\<exists>e. derivative_sum_fl cfs rate = Inl e)"
proof -
  have "step_raises cfs rate \<longleftrightarrow> (\<exists>k. 1 \<le> k \<and> k \<le> length cfs \<and> power_fails (fadd (Fin 1) rate) k)"
    by (auto simp: step_raises_def list_ex_iff)
  also have "\<dots> \<longleftrightarrow> (\<exists>i<length cfs. power_fails (fadd (Fin 1) rate) (i + 1))"
  proof
    assume "\<exists>k. 1 \<le> k \<and> k \<le> length cfs \<and> power_fails (fadd (Fin 1) rate) k"
    then obtain k where k: "1 \<le> k" "k \<le> length cfs" "power_fails (fadd (Fin 1) rate) k" by blast
    then have "k - 1 < length cfs" "power_fails (fadd (Fin 1) rate) (k - 1 + 1)" by auto
    then show "\<exists>i<length cfs. power_fails (fadd (Fin 1) rate) (i + 1)" by blast
  next
    assume "\<exists>i<length cfs. power_fails (fadd (Fin 1) rate) (i + 1)"
    then obtain i where "i < length cfs" "power_fails (fadd (Fin 1) rate) (i + 1)" by blast
    then have "1 \<le> i + 1 \<and> i + 1 \<le> length cfs \<and> power_fails (fadd (Fin 1) rate) (i + 1)" by auto
    then show "\<exists>k. 1 \<le> k \<and> k \<le> length cfs \<and> power_fails (fadd (Fin 1) rate) k" by blast
  qed
  also have "\<dots> \<longleftrightarrow> (\<exists>i<length cfs. power_fails (fadd (Fin 1) rate) i)
                  \<or> (\<exists>i<length cfs. power_fails (fadd (Fin 1) rate) (i + 1))"
  proof -
    have "\<exists>j<length cfs. power_fails (fadd (Fin 1) rate) (j + 1)"
      if "i < length cfs" "power_fails (fadd (Fin 1) rate) i" for i
    proof (cases i)
      case 0
      with that power_fails_0 show ?thesis by blast
    next
      case (Suc j)
      with that have "j < length cfs" "power_fails (fadd (Fin 1) rate) (j + 1)" by auto
      then show ?thesis by blast
    qed
    then show ?thesis by blast
  qed
  finally show ?thesis
    by (simp add: npv_sum_fl_raises_iff derivative_sum_fl_raises_iff)
qed

lemma irr_loop_fl_Suc:
  "irr_loop_fl (Suc n) cfs rate =
     (if step_raises cfs rate \<or> step_flat cfs rate then None
      else if step_converges_fl cfs rate then Some (newton_next_fl cfs rate)
      else irr_loop_fl n cfs (newton_next_fl cfs rate))"
proof (cases "step_raises cfs rate")
  case True
  then show ?thesis
    by (auto simp: step_raises_iff split: sum.splits)
next
  case False
  then obtain v d where vd: "npv_sum_fl cfs rate = Inr v" "derivative_sum_fl cfs rate = Inr d"
    unfolding step_raises_iff
    by (cases "npv_sum_fl cfs rate"; cases "derivative_sum_fl cfs rate") auto
  show ?thesis
  proof (cases "flt (fabs d) (Fin (1 / 10 ^ 10))")
    case True
    with False vd show ?thesis
      by (simp add: step_flat_def derivative_fl_def)
  next
    case nf: False
    then have "d \<noteq> Fin 0" by auto
    then obtain q where q: "fdiv v d = Inr q"
      using fdiv_raises_iff[of v d] by (cases "fdiv v d") auto
    with False vd nf show ?thesis
      by (simp add: step_flat_def step_converges_fl_def derivative_fl_def npv_fl_def
          newton_next_fl_def Let_def)
  qed
qed

subsection \<open>The solver loop within the range\<close>

lemma fpow_Fin_unfold:
  "fpow (Fin a) n =
     (if n = 0 then Inr (Fin 1)
      else if float_overflow \<le> \<bar>a ^ n\<bar> then Inl OverflowError
      else if \<bar>a ^ n\<bar> \<le> float_tiny then Inr (Fin 0)
      else Inr (Fin (a ^ n)))"
  by (cases n) auto

lemma newton_iter_fl_shift:
  "newton_iter_fl cfs g (Suc k) = newton_iter_fl cfs (newton_next_fl cfs g) k"
  by (induction k) simp_all

lemma irr_loop_fl_Some_iff:
  "irr_loop_fl n cfs g = Some r \<longleftrightarrow>
     (\<exists>k<n. (\<forall>j<k. \<not> (step_raises cfs (newton_iter_fl cfs g j) \<or> step_flat cfs (newton_iter_fl cfs g j))
                   \<and> \<not> step_converges_fl cfs (newton_iter_fl cfs g j))
           \<and> (\<not> (step_raises cfs (newton_iter_fl cfs g k) \<or> step_flat cfs (newton_iter_fl cfs g k))
              \<and> step_converges_fl cfs (newton_iter_fl cfs g k)
              \<and> r = newton_iter_fl cfs g (Suc k)))"
proof (induction n arbitrary: g)
  case 0
  show ?case by simp
next
  case (Suc n)
  show ?case
    unfolding ex_first_Suc irr_loop_fl_Suc
    by (simp add: Suc newton_iter_fl_shift del: newton_iter_fl.simps(2)) auto
qed

lemma irr_loop_fl_None_iff:
  "irr_loop_fl n cfs g = None \<longleftrightarrow>
     (\<exists>k<n. (\<forall>j<k. \<not> (step_raises cfs (newton_iter_fl cfs g j) \<or> step_flat cfs (newton_iter_fl cfs g j))
                   \<and> \<not> step_converges_fl cfs (newton_iter_fl cfs g j))
           \<and> (step_raises cfs (newton_iter_fl cfs g k) \<or> step_flat cfs (newton_iter_fl cfs g k)))
     \<or> (\<forall>j<n. \<not> (step_raises cfs (newton_iter_fl cfs g j) \<or> step_flat cfs (newton_iter_fl cfs g j))
              \<and> \<not> step_converges_fl cfs (newton_iter_fl cfs g j))"
proof (induction n arbitrary: g)
  case 0
  show ?case by simp
next
  case (Suc n)
  show ?case
    unfolding ex_first_Suc all_first_Suc irr_loop_fl_Suc
    by (simp add: Suc newton_iter_fl_shift del: newton_iter_fl.simps(2))
qed

lemma power_fails_overflow_series: "power_fails (fadd (Fin 1) (Fin (10 ^ 16 - 1))) 20"
  by (simp add: power_fails_def clip_def fpow_Fin_unfold float_overflow_def float_tiny_def)

lemma step_raises_overflow_series: "step_raises overflow_series (Fin (10 ^ 16 - 1))"
proof -
  have "(20::nat) \<in> set [1..<Suc (length overflow_series)]"
    by (simp add: overflow_series_def)
  with power_fails_overflow_series show ?thesis
    unfolding step_raises_def list_ex_iff by blast
qed

lemma irr_fl_100_110_step:
  "\<not> (step_raises [Fin (- 100), Fin 110] (Fin (1 / 10)) \<or> step_flat [Fin (- 100), Fin 110] (Fin (1 / 10)))"
  "step_converges_fl [Fin (- 100), Fin 110] (Fin (1 / 10))"
  "newton_next_fl [Fin (- 100), Fin 110] (Fin (1 / 10)) = Fin (1 / 10)"
  by (simp_all add: step_raises_def step_flat_def step_converges_fl_def newton_next_fl_def
      npv_fl_def derivative_fl_def npv_sum_fl_def derivative_sum_fl_def power_fails_def fsum_def
      fsub_def clip_def float_overflow_def float_tiny_def upt_rec enumerate_eq_zip)

subsection \<open>Where the present value raises\<close>

lemma fpow_Fin_zero_iff:
  "fpow (Fin a) n = Inr (Fin 0) \<longleftrightarrow> n \<noteq> 0 \<and> \<bar>a ^ n\<bar> \<le> float_tiny"
proof (cases "n = 0")
  case True
  then show ?thesis by simp
next
  case n: False
  show ?thesis
  proof (cases "float_overflow \<le> \<bar>a ^ n\<bar>")
    case True
    with float_bounds(2,3) have "\<not> \<bar>a ^ n\<bar> \<le> float_tiny" by linarith
    with True n show ?thesis by (simp add: fpow_Fin_unfold)
  next
    case o: False
    show ?thesis
    proof (cases "\<bar>a ^ n\<bar> \<le> float_tiny")
      case True
      with o n show ?thesis by (simp add: fpow_Fin_unfold)
    next
      case False
      have "a ^ n \<noteq> 0"
      proof
        assume "a ^ n = 0"
        then have "\<bar>a ^ n\<bar> = 0" by simp
        with float_bounds(1) have "\<bar>a ^ n\<bar> \<le> float_tiny" by linarith
        with False show False by simp
      qed
      with False o n show ?thesis by (simp add: fpow_Fin_unfold)
    qed
  qed
qed

lemma collect_all_errors:
  assumes "\<exists>x\<in>set xs. isl x" "\<And>e. Inl e \<in> set xs \<Longrightarrow> e = e0"
  shows "collect xs = Inl e0"
proof -
  from assms(1) obtain e where "collect xs = Inl e"
    using collect_raises_iff[of xs] by blast
  moreover from this have "Inl e \<in> set xs" by (rule collect_Inl_mem)
  ultimately show ?thesis using assms(2) by simp
qed

lemma npv_sum_fl_overflow:
  assumes b: "\<bar>1 + rate\<bar> < float_overflow"
    and o: "\<exists>i<length cfs. float_overflow \<le> \<bar>(1 + rate) ^ i\<bar>"
  shows "npv_sum_fl (map Fin cfs) (Fin rate) = Inl OverflowError"
proof -
  let ?f = "\<lambda>(i, cf). case fpow (fadd (Fin 1) (Fin rate)) i of
                                       Inl e \<Rightarrow> Inl e
                                     | Inr p \<Rightarrow> fdiv cf p"
  let ?xs = "map ?f (enumerate 0 (map Fin cfs))"
  from o obtain i where i: "i < length cfs" "float_overflow \<le> \<bar>(1 + rate) ^ i\<bar>" by blast
  have big: "1 < \<bar>1 + rate\<bar>"
  proof (rule ccontr)
    assume "\<not> 1 < \<bar>1 + rate\<bar>"
    then have "\<bar>1 + rate\<bar> ^ i \<le> 1" by (simp add: power_le_one)
    with i(2) float_bounds(3) show False by (simp add: power_abs)
  qed
  have "?f (i, Fin (cfs ! i)) = Inl OverflowError"
    using i(2) b by (simp add: clip_Fin fpow_Fin_overflow)
  moreover have "(i, Fin (cfs ! i)) \<in> set (enumerate 0 (map Fin cfs))"
    using i(1) by (simp add: in_set_enumerate_eq)
  ultimately have ex: "\<exists>x\<in>set ?xs. isl x"
    by (metis (no_types, lifting) image_eqI isl_def set_map)
  have only: "e = OverflowError" if "Inl e \<in> set ?xs" for e
  proof -
    from that obtain j c where jc: "?f (j, c) = Inl e"
      by auto
    show ?thesis
    proof (cases "fpow (fadd (Fin 1) (Fin rate)) j")
      case (Inl e')
      with jc have "e = e'" by simp
      with Inl show ?thesis by (auto dest: fpow_raises)
    next
      case (Inr p)
      with jc have "fdiv c p = Inl e" by simp
      then have "p = Fin 0" by (auto dest: fdiv_raises)
      with Inr have "fpow (Fin (1 + rate)) j = Inr (Fin 0)" using b by (simp add: clip_Fin)
      then have "j \<noteq> 0" "\<bar>(1 + rate) ^ j\<bar> \<le> float_tiny"
        by (simp_all add: fpow_Fin_zero_iff)
      moreover have "1 \<le> \<bar>1 + rate\<bar> ^ j"
        using big by (intro one_le_power) simp
      ultimately show ?thesis
        using float_bounds(2) by (simp add: power_abs)
    qed
  qed
  from collect_all_errors[OF ex only] show ?thesis
    by (simp add: npv_sum_fl_def)
qed

lemma npv_sum_fl_minus_one:
  assumes "2 \<le> length cfs"
  shows "npv_sum_fl (map Fin cfs) (Fin (- 1)) = Inl ZeroDivisionError"
proof -
  obtain c d cs where cfs: "cfs = c # d # cs"
    using assms by (cases cfs; cases "tl cfs") auto
  show ?thesis
    using float_bounds by (simp add: cfs npv_sum_fl_def clip_def fpow_Fin_unfold)
qed

lemma npv_pair_fl_cases:
  "npv_sum_fl fa rate = Inl e \<Longrightarrow> npv_pair_fl fa fw rate = (Fin 0, Fin 0)"
  "npv_sum_fl fw rate = Inl e \<Longrightarrow> npv_pair_fl fa fw rate = (Fin 0, Fin 0)"
  "npv_sum_fl fa rate = Inr a \<Longrightarrow> npv_sum_fl fw rate = Inr w \<Longrightarrow> npv_pair_fl fa fw rate = (a, w)"
  by (auto simp: npv_pair_fl_def split: sum.splits)

subsection \<open>Present values at rates of at least 0, and the flat series\<close>

lemma npv_sum_fl_no_raise:
  assumes b: "\<bar>1 + rate\<bar> < float_overflow"
    and p: "\<forall>i<length cfs. float_tiny < \<bar>(1 + rate) ^ i\<bar> \<and> \<bar>(1 + rate) ^ i\<bar> < float_overflow"
  shows "\<exists>v. npv_sum_fl cfs (Fin rate) = Inr v"
proof -
  have "\<not> power_fails (fadd (Fin 1) (Fin rate)) i" if "i < length cfs" for i
  proof -
    have "fpow (Fin (1 + rate)) i = Inr (Fin ((1 + rate) ^ i))"
      using p that by (intro fpow_Fin) auto
    moreover have "float_tiny < \<bar>(1 + rate) ^ i\<bar>"
      using p that by blast
    with float_bounds(1) have "0 < \<bar>(1 + rate) ^ i\<bar>"
      by linarith
    then have "Fin ((1 + rate) ^ i) \<noteq> Fin 0"
      by simp
    ultimately show ?thesis
      using b by (simp add: power_fails_def clip_Fin)
  qed
  then have "\<not> (\<exists>e. npv_sum_fl cfs (Fin rate) = Inl e)"
    unfolding npv_sum_fl_raises_iff by blast
  then show ?thesis
    by (cases "npv_sum_fl cfs (Fin rate)") auto
qed

lemma npv_antimono:
  assumes "cfs \<noteq> []" "\<forall>c\<in>set (tl cfs). 0 \<le> c" "0 \<le> r1" "r1 \<le> r2"
  shows "npv cfs r2 \<le> npv cfs r1"
proof -
  have "cfs ! i / (1 + r2) ^ i \<le> cfs ! i / (1 + r1) ^ i" if "i < length cfs" for i
  proof (cases i)
    case 0
    then show ?thesis by simp
  next
    case (Suc k)
    with that assms(1) have "cfs ! i \<in> set (tl cfs)"
      by (cases cfs) auto
    with assms(2) have "0 \<le> cfs ! i" by blast
    then show ?thesis using assms(3,4) by (rule npv_term_antimono)
  qed
  then show ?thesis
    unfolding npv_def by (intro sum_mono) simp
qed

lemma npv_sum_fl_nonneg_rate:
  assumes r: "0 \<le> r" "r \<le> r2"
    and b: "1 + r2 < float_overflow"
    and p: "(1 + r2) ^ (length cfs - 1) < float_overflow"
    and s: "(\<Sum>i<length cfs. \<bar>cfs ! i\<bar>) < float_overflow"
  shows "npv_sum_fl (map Fin cfs) (Fin r) = Inr (Fin (npv cfs r))"
proof (rule npv_sum_fl_in_range)
  show "\<bar>1 + r\<bar> < float_overflow"
    using r b by simp
  show "\<forall>i<length cfs. float_tiny < \<bar>(1 + r) ^ i\<bar> \<and> \<bar>(1 + r) ^ i\<bar> < float_overflow"
  proof (intro allI impI)
    fix i assume i: "i < length cfs"
    have one: "1 \<le> (1 + r) ^ i"
      using r(1) by (intro one_le_power) simp
    have "(1 + r) ^ i \<le> (1 + r2) ^ i"
      using r by (intro power_mono) auto
    also have "\<dots> \<le> (1 + r2) ^ (length cfs - 1)"
      using r i by (intro power_increasing) auto
    finally have "(1 + r) ^ i < float_overflow"
      using p by linarith
    with one float_bounds(2)
    show "float_tiny < \<bar>(1 + r) ^ i\<bar> \<and> \<bar>(1 + r) ^ i\<bar> < float_overflow"
      by simp
  qed
  have "(\<Sum>i<length cfs. \<bar>cfs ! i / (1 + r) ^ i\<bar>) \<le> (\<Sum>i<length cfs. \<bar>cfs ! i\<bar>)"
  proof (intro sum_mono)
    fix i
    have "1 \<le> (1 + r) ^ i"
      using r(1) by (intro one_le_power) simp
    then have "\<bar>cfs ! i\<bar> / (1 + r) ^ i \<le> \<bar>cfs ! i\<bar> / 1"
      by (intro divide_left_mono) auto
    moreover have "0 < (1 + r) ^ i"
      using r(1) by simp
    ultimately show "\<bar>cfs ! i / (1 + r) ^ i\<bar> \<le> \<bar>cfs ! i\<bar>"
      by (simp add: abs_divide abs_of_pos)
  qed
  with s show "(\<Sum>i<length cfs. \<bar>cfs ! i / (1 + r) ^ i\<bar>) < float_overflow"
    by linarith
qed

lemma flat_flows: "flows_avg (project (derive flat_inputs) 1000) = flat_series"
  by (simp add: flows_avg_project cf_a_flat capex_flat years_list flat_series_def
      numeral_eq_Suc)

lemma length_flat_series: "length flat_series = 21"
  by (simp add: flat_series_def)

lemma flat_series_nth: "i < 21 \<Longrightarrow> flat_series ! i = (if i = 0 then - 1250 else 500)"
  by (cases i) (simp_all add: flat_series_def)

lemma npv_flat_series_1: "npv flat_series 1 = - (196608125 / 262144)"
proof -
  have "npv flat_series 1 = (\<Sum>i<(21::nat). (if i = 0 then - 1250 else 500) / 2 ^ i)"
    unfolding npv_def length_flat_series by (intro sum.cong) (simp_all add: flat_series_nth)
  also have "\<dots> = - (196608125 / 262144)"
    by (simp add: numeral_eq_Suc lessThan_Suc)
  finally show ?thesis .
qed

lemma sum_abs_flat_series: "(\<Sum>i<length flat_series. \<bar>flat_series ! i\<bar>) = 11250"
proof -
  have "(\<Sum>i<length flat_series. \<bar>flat_series ! i\<bar>) = (\<Sum>i<(21::nat). (if i = 0 then 1250 else 500 :: real))"
    unfolding length_flat_series by (intro sum.cong) (simp_all add: flat_series_nth)
  also have "\<dots> = 11250"
    by (simp add: numeral_eq_Suc lessThan_Suc)
  finally show ?thesis .
qed

subsection \<open>The projection within the range\<close>

lemma fpow_in_double_range:
  assumes "in_double_range (a ^ n)"
  shows "fpow (Fin a) n = Inr (Fin (a ^ n))"
proof (cases "a ^ n = 0")
  case True
  then have "n \<noteq> 0" by (cases n) auto
  moreover have "\<bar>a ^ n\<bar> = 0"
    by (simp only: True abs_zero)
  with float_bounds(1) have "\<bar>a ^ n\<bar> \<le> float_tiny"
    by linarith
  ultimately have "fpow (Fin a) n = Inr (Fin 0)"
    by (simp only: fpow_Fin_zero_iff simp_thms)
  with True show ?thesis by simp
next
  case False
  with assms show ?thesis by (intro fpow_Fin) (auto simp: in_double_range_def)
qed

lemma fpow_Fin_raises_iff:
  "(\<exists>e. fpow (Fin a) n = Inl e) \<longleftrightarrow> float_overflow \<le> \<bar>a ^ n\<bar>"
proof (cases "n = 0")
  case True
  with float_bounds(3) show ?thesis by simp
next
  case False
  then show ?thesis by (auto simp: fpow_Fin_unfold)
qed

lemma clip_0: "clip 0 = Fin 0"
  using float_bounds(4) by (simp add: clip_def)

lemma fmul_zero: "fmul (Fin 0) (Fin a) = Fin 0"
  by (simp add: clip_0)

lemma sub_Fin: "\<bar>a - b\<bar> < float_overflow \<Longrightarrow> fsub (Fin a) (Fin b) = Fin (a - b)"
  by (simp add: fsub_def clip_Fin)

lemma add_Fin: "\<bar>a + b\<bar> < float_overflow \<Longrightarrow> fadd (Fin a) (Fin b) = Fin (a + b)"
  by (simp add: clip_Fin)

lemma mul_Fin: "\<bar>a * b\<bar> < float_overflow \<Longrightarrow> fmul (Fin a) (Fin b) = Fin (a * b)"
  by (simp add: clip_Fin)

lemma zero_yield_year:
  assumes r: "zero_yield_in_range P" and y: "y \<in> {1..20}"
  shows "rev_a_fl P (Fin 0) y = Inr (Fin 0)"
    and "rev_w_fl P (Fin 0) y = Inr (Fin 0)"
    and "cf_a_fl P (Fin 0) y = Inr (Fin (- (opex_fix P * (1 + infl_avg P) ^ (y - 1))))"
    and "cf_w_fl P (Fin 0) y =
           Inr (Fin (- (opex_fix P * (1 + infl_avg P) ^ (y - 1))
                     - (if y = inv_year P then inv_cost P else 0)))"
proof -
  from y have "y - 1 \<in> set [0..<20]" by auto
  with r have k: "in_double_range ((1 - degr_avg P) ^ (y - 1))"
    "in_double_range ((1 - degr_worst P) ^ (y - 1))"
    "in_double_range ((1 - merit_drop P) ^ (y - 1))"
    "in_double_range ((1 + infl_avg P) ^ (y - 1))"
    "\<bar>p_industry P * (1 + infl_avg P) ^ (y - 1)\<bar> < float_overflow"
    "\<bar>p_market P * (1 + infl_avg P) ^ (y - 1)\<bar> < float_overflow"
    "\<bar>p_market P * (1 - merit_drop P) ^ (y - 1)\<bar> < float_overflow"
    "\<bar>opex_fix P * (1 + infl_avg P) ^ (y - 1)\<bar> < float_overflow"
    "\<bar>opex_fix P * (1 + infl_avg P) ^ (y - 1) + inv_cost P\<bar> < float_overflow"
    unfolding zero_yield_in_range_def list_all_iff by blast+
  have "(1::nat) \<in> set [0..<20]" by simp
  with r have "in_double_range ((1 - degr_avg P) ^ 1)" "in_double_range ((1 - degr_worst P) ^ 1)"
    "in_double_range ((1 - merit_drop P) ^ 1)" "in_double_range ((1 + infl_avg P) ^ 1)"
    unfolding zero_yield_in_range_def list_all_iff by blast+
  with float_bounds(4) have b: "\<bar>1 - degr_avg P\<bar> < float_overflow" "\<bar>1 - degr_worst P\<bar> < float_overflow"
    "\<bar>1 - merit_drop P\<bar> < float_overflow" "\<bar>1 + infl_avg P\<bar> < float_overflow"
    by (auto simp: in_double_range_def)
  from r have su: "\<bar>1 - self_use P\<bar> < float_overflow"
    by (simp add: zero_yield_in_range_def)
  have pw: "fpow (fsub (Fin 1) (Fin (degr_avg P))) (y - 1) = Inr (Fin ((1 - degr_avg P) ^ (y - 1)))"
    "fpow (fsub (Fin 1) (Fin (degr_worst P))) (y - 1) = Inr (Fin ((1 - degr_worst P) ^ (y - 1)))"
    "fpow (fsub (Fin 1) (Fin (merit_drop P))) (y - 1) = Inr (Fin ((1 - merit_drop P) ^ (y - 1)))"
    "fpow (fadd (Fin 1) (Fin (infl_avg P))) (y - 1) = Inr (Fin ((1 + infl_avg P) ^ (y - 1)))"
    using b k(1-4) by (simp_all only: sub_Fin add_Fin fpow_in_double_range)
  show ra: "rev_a_fl P (Fin 0) y = Inr (Fin 0)"
    using k(5,6) su unfolding rev_a_fl_def pw
    by (simp add: Let_def fmul_zero mul_Fin sub_Fin add_Fin clip_0 clip_Fin float_bounds(4))
  show rw: "rev_w_fl P (Fin 0) y = Inr (Fin 0)"
    using k(7) su unfolding rev_w_fl_def pw
    by (simp add: Let_def fmul_zero mul_Fin sub_Fin add_Fin clip_0 clip_Fin float_bounds(4))
  have ca: "cost_a_fl P y = Inr (Fin (opex_fix P * (1 + infl_avg P) ^ (y - 1)))"
    "cost_w_fl P y = Inr (Fin (opex_fix P * (1 + infl_avg P) ^ (y - 1)))"
    using k(8) unfolding cost_a_fl_def cost_w_fl_def pw by (simp_all add: clip_Fin)
  show "cf_a_fl P (Fin 0) y = Inr (Fin (- (opex_fix P * (1 + infl_avg P) ^ (y - 1))))"
    using k(8) unfolding cf_a_fl_def ra ca by (simp add: sub_Fin)
  have "fsub (Fin 0) (Fin (opex_fix P * (1 + infl_avg P) ^ (y - 1)))
        = Fin (- (opex_fix P * (1 + infl_avg P) ^ (y - 1)))"
    using k(8) by (simp add: sub_Fin)
  moreover have "fsub (Fin (- (opex_fix P * (1 + infl_avg P) ^ (y - 1)))) (Fin (invest_fix P y))
        = Fin (- (opex_fix P * (1 + infl_avg P) ^ (y - 1)) - invest_fix P y)"
    using k(8,9) by (intro sub_Fin) (auto simp: invest_fix_def abs_minus_commute)
  ultimately show "cf_w_fl P (Fin 0) y =
           Inr (Fin (- (opex_fix P * (1 + infl_avg P) ^ (y - 1))
                     - (if y = inv_year P then inv_cost P else 0)))"
    unfolding cf_w_fl_def rw ca by (simp add: invest_fix_def)
qed

lemma run_years_flows:
  assumes "\<And>y. y \<in> set ys \<Longrightarrow> cf_a_fl P y0 y = Inr (fa y) \<and> cf_w_fl P y0 y = Inr (fw y)"
  shows "\<exists>s'. run_years P y0 s ys = Inr s'
            \<and> fflows_avg s' = fflows_avg s @ map fa ys
            \<and> fflows_worst s' = fflows_worst s @ map fw ys"
  using assms
proof (induction ys arbitrary: s)
  case Nil
  show ?case by simp
next
  case (Cons y ys)
  have y: "cf_a_fl P y0 y = Inr (fa y)" "cf_w_fl P y0 y = Inr (fw y)"
    using Cons.prems by simp_all
  let ?s = "\<lparr> fres_avg = fres_avg s @ [fadd (fcum_avg s) (fa y)],
                     fres_worst = fres_worst s @ [fadd (fcum_worst s) (fw y)],
                     fflows_avg = fflows_avg s @ [fa y],
                     fflows_worst = fflows_worst s @ [fw y],
                     fcum_avg = fadd (fcum_avg s) (fa y),
                     fcum_worst = fadd (fcum_worst s) (fw y) \<rparr>"
  have st: "year_step_fl P y0 s y = Inr ?s"
    by (simp add: year_step_fl_def y)
  from Cons.IH[of ?s] Cons.prems obtain s' where
    "run_years P y0 ?s ys = Inr s'" "fflows_avg s' = fflows_avg ?s @ map fa ys"
    "fflows_worst s' = fflows_worst ?s @ map fw ys"
    by auto
  then show ?case
    by (simp add: st)
qed

subsection \<open>Where the projection raises\<close>

lemma run_years_raises_iff:
  "(\<exists>e. run_years P y0 s ys = Inl e) \<longleftrightarrow>
     (\<exists>y\<in>set ys. (\<exists>e. cf_a_fl P y0 y = Inl e) \<or> (\<exists>e. cf_w_fl P y0 y = Inl e))"
proof (induction ys arbitrary: s)
  case Nil
  show ?case by simp
next
  case (Cons y ys)
  show ?case
  proof (cases "year_step_fl P y0 s y")
    case (Inl e)
    then have "(\<exists>e. cf_a_fl P y0 y = Inl e) \<or> (\<exists>e. cf_w_fl P y0 y = Inl e)"
      by (auto simp: year_step_fl_def split: sum.splits)
    with Inl show ?thesis by auto
  next
    case (Inr s')
    then have "\<not> ((\<exists>e. cf_a_fl P y0 y = Inl e) \<or> (\<exists>e. cf_w_fl P y0 y = Inl e))"
      by (auto simp: year_step_fl_def split: sum.splits)
    with Inr Cons.IH[of s'] show ?thesis by auto
  qed
qed

lemma cf_fl_raises:
  "cf_a_fl P y0 y = Inl e \<Longrightarrow> e = OverflowError"
  "cf_w_fl P y0 y = Inl e \<Longrightarrow> e = OverflowError"
  by (auto simp: cf_a_fl_def cf_w_fl_def rev_a_fl_def rev_w_fl_def cost_a_fl_def cost_w_fl_def
      Let_def split: sum.splits dest: fpow_raises)

lemma run_years_raises: "run_years P y0 s ys = Inl e \<Longrightarrow> e = OverflowError"
proof (induction ys arbitrary: s)
  case Nil
  then show ?case by simp
next
  case (Cons y ys)
  then show ?case
    by (auto simp: year_step_fl_def split: sum.splits dest: cf_fl_raises)
qed

lemma cf_a_fl_raises_iff:
  assumes "bases_finite P"
  shows "(\<exists>e. cf_a_fl P y0 y = Inl e) \<longleftrightarrow>
           float_overflow \<le> \<bar>(1 - degr_avg P) ^ (y - 1)\<bar>
           \<or> float_overflow \<le> \<bar>(1 + infl_avg P) ^ (y - 1)\<bar>"
proof -
  have b: "fsub (Fin 1) (Fin (degr_avg P)) = Fin (1 - degr_avg P)"
    "fadd (Fin 1) (Fin (infl_avg P)) = Fin (1 + infl_avg P)"
    using assms by (simp_all add: bases_finite_def sub_Fin clip_Fin)
  show ?thesis
    unfolding cf_a_fl_def rev_a_fl_def cost_a_fl_def b
      fpow_Fin_raises_iff[symmetric]
    by (auto simp: Let_def split: sum.splits)
qed

lemma cf_w_fl_raises_iff:
  assumes "bases_finite P"
  shows "(\<exists>e. cf_w_fl P y0 y = Inl e) \<longleftrightarrow>
           float_overflow \<le> \<bar>(1 - degr_worst P) ^ (y - 1)\<bar>
           \<or> float_overflow \<le> \<bar>(1 - merit_drop P) ^ (y - 1)\<bar>
           \<or> float_overflow \<le> \<bar>(1 + infl_avg P) ^ (y - 1)\<bar>"
proof -
  have b: "fsub (Fin 1) (Fin (degr_worst P)) = Fin (1 - degr_worst P)"
    "fsub (Fin 1) (Fin (merit_drop P)) = Fin (1 - merit_drop P)"
    "fadd (Fin 1) (Fin (infl_avg P)) = Fin (1 + infl_avg P)"
    using assms by (simp_all add: bases_finite_def sub_Fin clip_Fin)
  show ?thesis
    unfolding cf_w_fl_def rev_w_fl_def cost_w_fl_def b
      fpow_Fin_raises_iff[symmetric]
    by (auto simp: Let_def split: sum.splits)
qed

lemma project_fl_raises_iff:
  assumes "bases_finite P"
  shows "(\<exists>e. project_fl P y0 = Inl e) \<longleftrightarrow> power_overflows P"
proof -
  have "(\<exists>e. project_fl P y0 = Inl e) \<longleftrightarrow>
        (\<exists>y\<in>set years. float_overflow \<le> \<bar>(1 - degr_avg P) ^ (y - 1)\<bar>
           \<or> float_overflow \<le> \<bar>(1 + infl_avg P) ^ (y - 1)\<bar>
           \<or> float_overflow \<le> \<bar>(1 - degr_worst P) ^ (y - 1)\<bar>
           \<or> float_overflow \<le> \<bar>(1 - merit_drop P) ^ (y - 1)\<bar>)"
    unfolding project_fl_def run_years_raises_iff
      cf_a_fl_raises_iff[OF assms] cf_w_fl_raises_iff[OF assms]
    by blast
  also have "\<dots> \<longleftrightarrow> (\<exists>k\<in>set [0..<20]. float_overflow \<le> \<bar>(1 - degr_avg P) ^ k\<bar>
           \<or> float_overflow \<le> \<bar>(1 + infl_avg P) ^ k\<bar>
           \<or> float_overflow \<le> \<bar>(1 - degr_worst P) ^ k\<bar>
           \<or> float_overflow \<le> \<bar>(1 - merit_drop P) ^ k\<bar>)"
  proof
    assume "\<exists>y\<in>set years. float_overflow \<le> \<bar>(1 - degr_avg P) ^ (y - 1)\<bar>
           \<or> float_overflow \<le> \<bar>(1 + infl_avg P) ^ (y - 1)\<bar>
           \<or> float_overflow \<le> \<bar>(1 - degr_worst P) ^ (y - 1)\<bar>
           \<or> float_overflow \<le> \<bar>(1 - merit_drop P) ^ (y - 1)\<bar>"
    then obtain y where "y \<in> set years" and o: "float_overflow \<le> \<bar>(1 - degr_avg P) ^ (y - 1)\<bar>
           \<or> float_overflow \<le> \<bar>(1 + infl_avg P) ^ (y - 1)\<bar>
           \<or> float_overflow \<le> \<bar>(1 - degr_worst P) ^ (y - 1)\<bar>
           \<or> float_overflow \<le> \<bar>(1 - merit_drop P) ^ (y - 1)\<bar>" by blast
    then have "y - 1 \<in> set [0..<20]" by (auto simp: years_def)
    with o show "\<exists>k\<in>set [0..<20]. float_overflow \<le> \<bar>(1 - degr_avg P) ^ k\<bar>
           \<or> float_overflow \<le> \<bar>(1 + infl_avg P) ^ k\<bar>
           \<or> float_overflow \<le> \<bar>(1 - degr_worst P) ^ k\<bar>
           \<or> float_overflow \<le> \<bar>(1 - merit_drop P) ^ k\<bar>" by blast
  next
    assume "\<exists>k\<in>set [0..<20]. float_overflow \<le> \<bar>(1 - degr_avg P) ^ k\<bar>
           \<or> float_overflow \<le> \<bar>(1 + infl_avg P) ^ k\<bar>
           \<or> float_overflow \<le> \<bar>(1 - degr_worst P) ^ k\<bar>
           \<or> float_overflow \<le> \<bar>(1 - merit_drop P) ^ k\<bar>"
    then obtain k where "k \<in> set [0..<20]" and o: "float_overflow \<le> \<bar>(1 - degr_avg P) ^ k\<bar>
           \<or> float_overflow \<le> \<bar>(1 + infl_avg P) ^ k\<bar>
           \<or> float_overflow \<le> \<bar>(1 - degr_worst P) ^ k\<bar>
           \<or> float_overflow \<le> \<bar>(1 - merit_drop P) ^ k\<bar>" by blast
    then have "Suc k \<in> set years" "Suc k - 1 = k" by (auto simp: years_def)
    with o show "\<exists>y\<in>set years. float_overflow \<le> \<bar>(1 - degr_avg P) ^ (y - 1)\<bar>
           \<or> float_overflow \<le> \<bar>(1 + infl_avg P) ^ (y - 1)\<bar>
           \<or> float_overflow \<le> \<bar>(1 - degr_worst P) ^ (y - 1)\<bar>
           \<or> float_overflow \<le> \<bar>(1 - merit_drop P) ^ (y - 1)\<bar>" by metis
  qed
  also have "\<dots> \<longleftrightarrow> power_overflows P"
    unfolding power_overflows_def list_ex_iff by blast
  finally show ?thesis .
qed

lemma zero_yield_in_range_bases:
  assumes "zero_yield_in_range P"
  shows "bases_finite P" "\<not> power_overflows P"
proof -
  have k: "in_double_range ((1 - degr_avg P) ^ k) \<and> in_double_range ((1 - degr_worst P) ^ k)
        \<and> in_double_range ((1 - merit_drop P) ^ k) \<and> in_double_range ((1 + infl_avg P) ^ k)"
    if "k \<in> set [0..<20]" for k
    using assms that unfolding zero_yield_in_range_def list_all_iff by blast
  have lt: "\<bar>r\<bar> < float_overflow" if "in_double_range r" for r
    using that float_bounds(4) by (auto simp: in_double_range_def)
  have "(1::nat) \<in> set [0..<20]" by simp
  from k[OF this] show "bases_finite P"
    using lt[of "(1 - degr_avg P) ^ 1"] lt[of "(1 - degr_worst P) ^ 1"]
      lt[of "(1 - merit_drop P) ^ 1"] lt[of "(1 + infl_avg P) ^ 1"]
    by (simp add: bases_finite_def)
  show "\<not> power_overflows P"
    unfolding power_overflows_def list_ex_iff
  proof
    assume "\<exists>k\<in>set [0..<20]. float_overflow \<le> \<bar>(1 - degr_avg P) ^ k\<bar>
                  \<or> float_overflow \<le> \<bar>(1 - degr_worst P) ^ k\<bar>
                  \<or> float_overflow \<le> \<bar>(1 - merit_drop P) ^ k\<bar>
                  \<or> float_overflow \<le> \<bar>(1 + infl_avg P) ^ k\<bar>"
    then obtain k where kk: "k \<in> set [0..<20]" and o: "float_overflow \<le> \<bar>(1 - degr_avg P) ^ k\<bar>
                  \<or> float_overflow \<le> \<bar>(1 - degr_worst P) ^ k\<bar>
                  \<or> float_overflow \<le> \<bar>(1 - merit_drop P) ^ k\<bar>
                  \<or> float_overflow \<le> \<bar>(1 + infl_avg P) ^ k\<bar>" by blast
    from k[OF kk] have "\<bar>(1 - degr_avg P) ^ k\<bar> < float_overflow"
      "\<bar>(1 - degr_worst P) ^ k\<bar> < float_overflow" "\<bar>(1 - merit_drop P) ^ k\<bar> < float_overflow"
      "\<bar>(1 + infl_avg P) ^ k\<bar> < float_overflow"
      by (auto intro: lt)
    with o show False by linarith
  qed
qed

section \<open>The claims\<close>

text \<open>
  C1. The payback year is meant to be the first index of the cumulative-balance sequence,
  whose index 0 is the outlay entry, with a value of at least 0. The script searches
  \<^verbatim>\<open>res_avg\<close>, which starts at the balance after year 1, so it reports one year less:
  in the flat run the cumulative balances start \<open>-1250, -750, -250, 250, 750\<close>, the first
  non-negative entry is at index 3, and the script reports 2.
\<close>

theorem payback_avg_flat:
  "\<exists>out. calculate no_geocode pvgis_1000 flat_inputs = Some out
     \<and> take 5 (cumulative_balance (out_flows_avg out)) = [-1250, -750, -250, 250, 750]
     \<and> payback_of (cumulative_balance (out_flows_avg out)) = Year 3
     \<and> payback_avg out = Year 2"
  by (simp add: calculate_flat report_fields flows_avg_project res_avg_project cf_a_flat
      capex_flat years_list cumulative_balance_def payback_of_def enumerate_eq_zip upt_rec)

text \<open>
  C2. A failed yield lookup is not replaced by a zero yield: with a positive capacity and a
  yield service that fails, the calculation is skipped and the run shows nothing.
\<close>

theorem yield_lookup_failure_counterexample:
  "0 < kwp flat_inputs
   \<and> get_pvgis_data pvgis_down (5355 / 100) (999 / 100) (kwp flat_inputs) 35 0 = None
   \<and> calculate no_geocode pvgis_down flat_inputs = None"
  by (simp add: kwp_def calculate_def resolve_location_def get_coordinates_def no_geocode_def
      default_location_def get_pvgis_data_def pvgis_down_def flat_inputs_def)

text \<open>
  C2, as the code has it. When the geocoder returns nothing or raises, the position is the
  default one and the run is the run of a geocoder answering with the default position.
  When the capacity is positive and the yield service fails, the run shows nothing (and
  does not raise). A zero yield is used only when the capacity is not positive, and then
  the calculation runs on it.
\<close>

theorem lookup_failure_handling:
  "(geocode (addr i) = GeoNone \<or> geocode (addr i) = GeoRaises \<longrightarrow>
      resolve_location geocode (addr i) = default_location
      \<and> calculate geocode pvgis i = calculate geocode_default pvgis i)
   \<and> (0 < kwp i
        \<and> pvgis (fst (resolve_location geocode (addr i))) (snd (resolve_location geocode (addr i)))
             (kwp i) (angle i) (aspect i) = None \<longrightarrow>
      calculate geocode pvgis i = None)
   \<and> (kwp i \<le> 0 \<longrightarrow> calculate geocode pvgis i = Some (report (derive i) 0))"
proof (intro conjI impI)
  assume g: "geocode (addr i) = GeoNone \<or> geocode (addr i) = GeoRaises"
  then show r: "resolve_location geocode (addr i) = default_location"
    by (auto simp: resolve_location_def get_coordinates_def)
  have "resolve_location geocode_default (addr i) = default_location"
    by (simp add: resolve_location_def get_coordinates_def geocode_default_def default_location_def)
  with r show "calculate geocode pvgis i = calculate geocode_default pvgis i"
    by (simp add: calculate_def)
next
  assume "0 < kwp i
        \<and> pvgis (fst (resolve_location geocode (addr i))) (snd (resolve_location geocode (addr i)))
             (kwp i) (angle i) (aspect i) = None"
  then show "calculate geocode pvgis i = None"
    by (auto simp: calculate_def get_pvgis_data_def split: prod.splits)
next
  assume "kwp i \<le> 0"
  then show "calculate geocode pvgis i = Some (report (derive i) 0)"
    by (simp add: calculate_def split: prod.splits)
qed

theorem lookup_failure_handling_witness:
  "resolve_location geocode_raises (addr flat_inputs) = default_location
   \<and> calculate geocode_raises pvgis_1000 flat_inputs = calculate geocode_default pvgis_1000 flat_inputs
   \<and> calculate geocode_raises pvgis_down flat_inputs = None
   \<and> calculate geocode_raises pvgis_down zero_area_inputs = Some (report (derive zero_area_inputs) 0)"
proof -
  have "geocode_raises (addr flat_inputs) = GeoNone \<or> geocode_raises (addr flat_inputs) = GeoRaises"
    by (simp add: geocode_raises_def)
  moreover have "0 < kwp flat_inputs
        \<and> pvgis_down (fst (resolve_location geocode_raises (addr flat_inputs)))
             (snd (resolve_location geocode_raises (addr flat_inputs)))
             (kwp flat_inputs) (angle flat_inputs) (aspect flat_inputs) = None"
    by (simp add: kwp_flat pvgis_down_def)
  moreover have "kwp zero_area_inputs \<le> 0"
    by (simp add: kwp_def zero_area_inputs_def)
  ultimately show ?thesis
    using lookup_failure_handling[of geocode_raises flat_inputs pvgis_1000]
      lookup_failure_handling[of geocode_raises flat_inputs pvgis_down]
      lookup_failure_handling[of geocode_raises zero_area_inputs pvgis_down]
    by blast
qed







text \<open>
  C5. An internal rate of return of exactly 0 is shown as \<^verbatim>\<open>n/a\<close>: the solver returns
  the rate 0 on the series \<open>[-1, 1]\<close> from the guess 0, and the display tests the rate by
  truthiness, which is false for 0.
\<close>

theorem irr_display_zero:
  "calculate_irr [-1, 1] 0 = Some 0 \<and> irr_display (calculate_irr [-1, 1] 0) = NA"
  by (simp add: calculate_irr_def irr_loop_Suc[of 99, simplified] step_fails_def step_converges_def
      newton_next_def npv_def npv_derivative_def irr_display_def lessThan_Suc)



text \<open>
  C7. In every year \<open>y\<close> from 1 to 20, the worst-case net flow values the self-consumed
  production at the base purchase price and the exported production at the export price
  decayed by \<open>(1 - merit_drop)^(y-1)\<close>; in both scenarios the cost is the fixed operating
  cost escalated by \<open>(1 + inflation)^(y-1)\<close>; and the replacement cost is subtracted in the
  replacement year, in the worst case only.
\<close>

theorem yearly_net_flows:
  assumes "y \<in> {1..20}"
  shows "flows_worst (project P y0) ! y =
           (y0 * (1 - degr_worst P) ^ (y - 1)) * self_use P * p_industry P
           + (y0 * (1 - degr_worst P) ^ (y - 1)) * (1 - self_use P)
               * (p_market P * (1 - merit_drop P) ^ (y - 1))
           - opex_fix P * (1 + infl_avg P) ^ (y - 1)
           - (if y = inv_year P then inv_cost P else 0)
         \<and> flows_avg (project P y0) ! y =
           (y0 * (1 - degr_avg P) ^ (y - 1)) * self_use P
               * (p_industry P * (1 + infl_avg P) ^ (y - 1))
           + (y0 * (1 - degr_avg P) ^ (y - 1)) * (1 - self_use P)
               * (p_market P * (1 + infl_avg P) ^ (y - 1))
           - opex_fix P * (1 + infl_avg P) ^ (y - 1)"
  using assms
  by (simp add: flows_worst_nth flows_avg_nth cf_w_def cf_a_def rev_w_def rev_a_def prod_w_def
      prod_a_def p_mark_w_def p_mark_a_def p_ind_a_def cost_w_def cost_a_def invest_fix_def)

theorem yearly_net_flows_witness:
  "(10::nat) \<in> {1..20}
   \<and> flows_worst (project (derive inflated_inputs) 1000) ! 10 =
       (1000 * (1 - 1 / 100) ^ 9) * (2 / 5) * (7 / 25)
       + (1000 * (1 - 1 / 100) ^ 9) * (1 - 2 / 5) * (2 / 25 * (1 - 1 / 100) ^ 9)
       - 100 * (1 + 1 / 50) ^ 9 - 2000
   \<and> flows_avg (project (derive inflated_inputs) 1000) ! 10 =
       (1000 * (1 - 1 / 200) ^ 9) * (2 / 5) * (7 / 25 * (1 + 1 / 50) ^ 9)
       + (1000 * (1 - 1 / 200) ^ 9) * (1 - 2 / 5) * (2 / 25 * (1 + 1 / 50) ^ 9)
       - 100 * (1 + 1 / 50) ^ 9"
proof -
  have h: "(10::nat) \<in> {1..20}" by simp
  show ?thesis
    using yearly_net_flows[OF h, of "derive inflated_inputs" 1000] h
    by (simp add: derive_inflated)
qed






text \<open>
  C10. The number parser raises on an int too large for a float: the conversion of
  \<open>10^400\<close> is outside any \<^verbatim>\<open>try\<close>, so the \<^verbatim>\<open>OverflowError\<close> leaves the function.
\<close>

theorem parse_de_number_overflow:
  "parse_de_number f (PyInt (10 ^ 400)) = Inl OverflowError"
  by (simp add: parse_de_number_def float_of_int_def)

theorem zero_yield_projection_fl:
  "(bases_finite P \<and> power_overflows P \<longrightarrow> project_fl P y0 = Inl OverflowError)
   \<and> (bases_finite P \<and> \<not> power_overflows P \<longrightarrow> (\<exists>s. project_fl P y0 = Inr s))
   \<and> (zero_yield_in_range P \<longrightarrow>
        (\<exists>s. project_fl P (Fin 0) = Inr s
           \<and> length (fflows_avg s) = 21 \<and> length (fflows_worst s) = 21
           \<and> fflows_avg s ! 0 = Fin (- capex P) \<and> fflows_worst s ! 0 = Fin (- capex P)
           \<and> (\<forall>y\<in>{1..20}.
                 rev_a_fl P (Fin 0) y = Inr (Fin 0) \<and> rev_w_fl P (Fin 0) y = Inr (Fin 0)
                 \<and> fflows_avg s ! y = Fin (- (opex_fix P * (1 + infl_avg P) ^ (y - 1)))
                 \<and> fflows_worst s ! y =
                     Fin (- (opex_fix P * (1 + infl_avg P) ^ (y - 1))
                          - (if y = inv_year P then inv_cost P else 0)))))"
proof (intro conjI impI)
  assume "bases_finite P \<and> power_overflows P"
  then obtain e where "project_fl P y0 = Inl e"
    using project_fl_raises_iff[of P y0] by blast
  moreover from this have "e = OverflowError"
    unfolding project_fl_def by (rule run_years_raises)
  ultimately show "project_fl P y0 = Inl OverflowError" by simp
next
  assume "bases_finite P \<and> \<not> power_overflows P"
  then have "\<not> (\<exists>e. project_fl P y0 = Inl e)"
    using project_fl_raises_iff[of P y0] by blast
  then show "\<exists>s. project_fl P y0 = Inr s"
    by (cases "project_fl P y0") auto
next
  assume r: "zero_yield_in_range P"
  let ?fa = "\<lambda>y. Fin (- (opex_fix P * (1 + infl_avg P) ^ (y - 1)))"
  let ?fw = "\<lambda>y. Fin (- (opex_fix P * (1 + infl_avg P) ^ (y - 1))
                          - (if y = inv_year P then inv_cost P else 0))"
  have "\<exists>s'. run_years P (Fin 0) (init_state_fl P) years = Inr s'
            \<and> fflows_avg s' = fflows_avg (init_state_fl P) @ map ?fa years
            \<and> fflows_worst s' = fflows_worst (init_state_fl P) @ map ?fw years"
  proof (rule run_years_flows)
    fix y assume "y \<in> set years"
    then have "y \<in> {1..20}" by (auto simp: years_def)
    from zero_yield_year(3,4)[OF r this]
    show "cf_a_fl P (Fin 0) y = Inr (?fa y) \<and> cf_w_fl P (Fin 0) y = Inr (?fw y)"
      by simp
  qed
  then obtain s where s: "project_fl P (Fin 0) = Inr s"
    "fflows_avg s = Fin (- capex P) # map ?fa years"
    "fflows_worst s = Fin (- capex P) # map ?fw years"
    by (auto simp: project_fl_def init_state_fl_def)
  have nth: "(x # map f years) ! y = f y" if "y \<in> {1..20}" for y and x :: fl and f
    using that by (cases y) (auto simp: years_def)
  show "\<exists>s. project_fl P (Fin 0) = Inr s
           \<and> length (fflows_avg s) = 21 \<and> length (fflows_worst s) = 21
           \<and> fflows_avg s ! 0 = Fin (- capex P) \<and> fflows_worst s ! 0 = Fin (- capex P)
           \<and> (\<forall>y\<in>{1..20}.
                 rev_a_fl P (Fin 0) y = Inr (Fin 0) \<and> rev_w_fl P (Fin 0) y = Inr (Fin 0)
                 \<and> fflows_avg s ! y = Fin (- (opex_fix P * (1 + infl_avg P) ^ (y - 1)))
                 \<and> fflows_worst s ! y =
                     Fin (- (opex_fix P * (1 + infl_avg P) ^ (y - 1))
                          - (if y = inv_year P then inv_cost P else 0)))"
  proof (intro exI[of _ s] conjI ballI)
    show "project_fl P (Fin 0) = Inr s" by (rule s(1))
    show "length (fflows_avg s) = 21" "length (fflows_worst s) = 21"
      by (simp_all add: s length_years)
    show "fflows_avg s ! 0 = Fin (- capex P)" "fflows_worst s ! 0 = Fin (- capex P)"
      by (simp_all add: s)
  next
    fix y :: nat assume y: "y \<in> {1..20}"
    show "rev_a_fl P (Fin 0) y = Inr (Fin 0)" "rev_w_fl P (Fin 0) y = Inr (Fin 0)"
      using zero_yield_year(1,2)[OF r y] by simp_all
    show "fflows_avg s ! y = Fin (- (opex_fix P * (1 + infl_avg P) ^ (y - 1)))"
      unfolding s(2) by (rule nth[OF y])
    show "fflows_worst s ! y =
                     Fin (- (opex_fix P * (1 + infl_avg P) ^ (y - 1))
                          - (if y = inv_year P then inv_cost P else 0))"
      unfolding s(3) by (rule nth[OF y])
  qed
qed

end
